theory Spec2Isabelle
  imports Complex_Main "HOL-Library.Word" "HOL-Library.Multiset"
begin

section \<open>Go values shared by the packages\<close>

text \<open>
  A Go pointer \<open>*T\<close> is \<open>nil\<close> or points to a value: \<open>None\<close> is \<open>nil\<close>.
  A run-time panic of the Go code is a value of \<open>panic\<close>; a function that can panic
  returns \<open>panic + 'a\<close> with \<open>Inl\<close> for the panic.
\<close>

type_synonym 'a ptr = "'a option"

datatype panic = IndexOutOfRange

section \<open>pkg/zson/array.go: the Array batch\<close>

text \<open>
  \<open>type Array struct { span nano.Span; records []*Record }\<close>.
  \<open>nano.Span\<close> and \<open>Record\<close> are declared outside the sources at hand; they are the
  type parameters \<open>'s\<close> and \<open>'r\<close>.
\<close>

record ('s, 'r) Array =
  span :: 's
  records :: "'r ptr list"

definition NewArray :: "'r ptr list \<Rightarrow> 's \<Rightarrow> ('s, 'r) Array" where
  "NewArray r s = \<lparr>span = s, records = r\<rparr>"

text \<open>
  \<open>Ref\<close> and \<open>Unref\<close> have an empty body. As methods on a pointer receiver they are
  modelled by state passing: the batch goes in and the batch after the call comes out.
\<close>

definition Ref :: "('s, 'r) Array \<Rightarrow> ('s, 'r) Array" where
  "Ref b = b"

definition Unref :: "('s, 'r) Array \<Rightarrow> ('s, 'r) Array" where
  "Unref b = b"

definition Length :: "('s, 'r) Array \<Rightarrow> int" where
  "Length a = int (length (records a))"

definition Records :: "('s, 'r) Array \<Rightarrow> 'r ptr list" where
  "Records a = records a"

definition Span :: "('s, 'r) Array \<Rightarrow> 's" where
  "Span a = span a"

text \<open>
  \<open>if k < len(a.records) { return a.records[k] }; return nil\<close>.
  Go checks every slice index at run time: \<open>a.records[k]\<close> with \<open>k < 0\<close> panics
  with "index out of range". The guard of \<open>Index\<close> lets a negative \<open>k\<close> through to
  the indexing expression.
\<close>

definition slice_index :: "'a list \<Rightarrow> int \<Rightarrow> panic + 'a" where
  "slice_index xs k =
     (if 0 \<le> k \<and> k < int (length xs) then Inr (xs ! nat k) else Inl IndexOutOfRange)"

definition Index :: "('s, 'r) Array \<Rightarrow> int \<Rightarrow> panic + 'r ptr" where
  "Index a k =
     (if k < int (length (records a)) then slice_index (records a) k else Inr None)"

text \<open>A caller's sequence of reference-count calls on one batch.\<close>

datatype refcall = CallRef | CallUnref

fun refcall_apply :: "refcall \<Rightarrow> ('s, 'r) Array \<Rightarrow> ('s, 'r) Array" where
  "refcall_apply CallRef b = Ref b"
| "refcall_apply CallUnref b = Unref b"

definition refcalls :: "refcall list \<Rightarrow> ('s, 'r) Array \<Rightarrow> ('s, 'r) Array" where
  "refcalls cs b = fold refcall_apply cs b"

section \<open>streamfn/uint64.go\<close>

text \<open>
  \<open>type Uint64 struct { State uint64; Update func(uint64) }\<close>.
  \<open>Update\<close> is a closure over the struct it is stored in and assigns to its \<open>State\<close>;
  here it is the function from the state before the call and the argument to the state
  after it, and \<open>call_Update\<close> is the call \<open>p.Update(v)\<close>. \<open>uint64\<close> addition wraps.
\<close>

type_synonym uint64 = "64 word"

record Uint64 =
  State :: uint64
  Update :: "uint64 \<Rightarrow> uint64 \<Rightarrow> uint64"

definition MaxUint64 :: uint64 where
  "MaxUint64 = 18446744073709551615"

definition NewUint64 :: "string \<Rightarrow> Uint64 ptr" where
  "NewUint64 op =
     (if op = ''Sum'' then Some \<lparr>State = 0, Update = (\<lambda>st v. st + v)\<rparr>
      else if op = ''Min'' then
        Some \<lparr>State = MaxUint64, Update = (\<lambda>st v. if v < st then v else st)\<rparr>
      else if op = ''Max'' then
        Some \<lparr>State = 0, Update = (\<lambda>st v. if v > st then v else st)\<rparr>
      else None)"

definition call_Update :: "Uint64 \<Rightarrow> uint64 \<Rightarrow> Uint64" where
  "call_Update p v = p\<lparr>State := Update p (State p) v\<rparr>"

definition updates :: "Uint64 \<Rightarrow> uint64 list \<Rightarrow> Uint64" where
  "updates p vs = foldl call_Update p vs"

section \<open>expr/sort.go: the record comparator\<close>

subsection \<open>Go library functions the comparator calls\<close>

text \<open>
  \<open>zcode.Bytes\<close> is a byte slice, and \<open>isNull\<close> tells the \<open>nil\<close> slice from an empty
  one: \<open>None\<close> is \<open>nil\<close>. \<open>len\<close> of a \<open>nil\<close> slice is 0.
\<close>

type_synonym byte = "8 word"
type_synonym Bytes = "byte list option"

fun slice :: "Bytes \<Rightarrow> byte list" where
  "slice None = []"
| "slice (Some xs) = xs"

text \<open>
  \<open>bytes.Compare\<close> of the Go library: the lexicographic order of the two slices, bytes
  compared as unsigned numbers, a proper prefix first; the result is -1, 0 or 1 and a
  \<open>nil\<close> argument counts as the empty slice.
\<close>

fun compare_lex :: "byte list \<Rightarrow> byte list \<Rightarrow> int" where
  "compare_lex [] [] = 0"
| "compare_lex [] (y # ys) = - 1"
| "compare_lex (x # xs) [] = 1"
| "compare_lex (x # xs) (y # ys) =
     (if x < y then - 1 else if y < x then 1 else compare_lex xs ys)"

definition bytes_Compare :: "Bytes \<Rightarrow> Bytes \<Rightarrow> int" where
  "bytes_Compare a b = compare_lex (slice a) (slice b)"

text \<open>The conversion \<open>[]byte(s)\<close> of a string: its bytes, never \<open>nil\<close> here.\<close>

definition string_bytes :: "string \<Rightarrow> Bytes" where
  "string_bytes s = Some (map of_char s)"

text \<open>
  \<open>net.IP\<close> is a byte slice of length 4 or 16. \<open>To16\<close> of the Go library returns a
  16-byte address as it is, puts the IPv4-in-IPv6 prefix in front of a 4-byte address
  and returns \<open>nil\<close> for any other length.
\<close>

type_synonym IP = Bytes

definition v4InV6Prefix :: "byte list" where
  "v4InV6Prefix = [0, 0, 0, 0, 0, 0, 0, 0, 0, 0, 255, 255]"

definition To16 :: "IP \<Rightarrow> IP" where
  "To16 ip =
     (if length (slice ip) = 4 then Some (v4InV6Prefix @ slice ip)
      else if length (slice ip) = 16 then ip
      else None)"

text \<open>
  A \<open>float64\<close> as far as \<open>\<le>\<close> and \<open>>\<close> see it: not a number, an infinity, or a real
  number (both zeros are the number 0). Every comparison with NaN is false.
\<close>

datatype float64 = NaN | NegInf | Finite real | PosInf

fun float64_less :: "float64 \<Rightarrow> float64 \<Rightarrow> bool" where
  "float64_less NaN y = False"
| "float64_less x NaN = False"
| "float64_less x NegInf = False"
| "float64_less NegInf y = True"
| "float64_less PosInf y = False"
| "float64_less (Finite x) PosInf = True"
| "float64_less (Finite x) (Finite y) = (x < y)"

subsection \<open>Package zng as sort.go uses it\<close>

text \<open>
  Modelled from the spec: package \<open>zng\<close> is not among the sources. Section 3 gives every
  primitive type "a stable small integer ID"; the constants \<open>zng.IdBool\<close>, ... that
  \<open>lookupSorter\<close> switches on are the constructors of \<open>type_id\<close> (a Go switch cannot
  name one constant twice, so they differ), and \<open>IdOther n\<close> is any other ID:
  byte-string, network, enum, and the IDs of container and record types.
  A \<open>zng.Type\<close> is what sort.go observes of it: \<open>typ.ID()\<close>, \<open>typ.String()\<close> and
  \<open>zng.InnerType(typ)\<close>, the element type of a set or sequence and \<open>nil\<close> otherwise.
\<close>

datatype type_id =
    IdBool | IdString | IdInt16 | IdInt32 | IdInt64 | IdUint16 | IdUint32 | IdUint64
  | IdPort | IdFloat64 | IdTime | IdDuration | IdIP | IdOther nat

datatype zng_Type = MkType (ID: type_id) (String: string) (InnerType: "zng_Type option")

text \<open>\<open>zng.Value\<close>: \<open>struct { Type Type; Bytes zcode.Bytes }\<close>, either field may be \<open>nil\<close>.\<close>

record Value =
  Type :: "zng_Type option"
  Bytes :: Bytes

text \<open>
  What the container iterator \<open>zcode.Iter\<close> yields for one element: the triple
  \<open>(bytes, container, err)\<close> that \<open>Next\<close> returns, \<open>err\<close> being \<open>err != nil\<close>.
\<close>

record elem =
  val :: Bytes
  container :: bool
  err :: bool

text \<open>
  Modelled from the spec: the decoders and the iterator are not among the sources.
  Section 4.B: "decode-primitive functions for each primitive type that fail with
  decode-error on truncated or malformed bytes, plus a container iterator"; section 3:
  "A container iterator yields, per element, (bytes, is-container-flag, error)".
  They are parameters of the comparator. A decoder's \<open>(v, err)\<close> is \<open>None\<close> when
  \<open>err != nil\<close>. \<open>Iter b\<close> is the sequence of results of \<open>Next\<close> on \<open>b.Iter()\<close> until
  \<open>Done\<close>; the comparator stops at the first result with an error. Signed and unsigned
  integers, ports, times and durations are compared and never added, so they are
  \<open>int\<close> and \<open>nat\<close>.
\<close>

record zng =
  DecodeBool :: "Bytes \<Rightarrow> bool option"
  DecodeInt :: "Bytes \<Rightarrow> int option"
  DecodeUint :: "Bytes \<Rightarrow> nat option"
  DecodePort :: "Bytes \<Rightarrow> nat option"
  DecodeFloat64 :: "Bytes \<Rightarrow> float64 option"
  DecodeTime :: "Bytes \<Rightarrow> int option"
  DecodeDuration :: "Bytes \<Rightarrow> int option"
  DecodeIP :: "Bytes \<Rightarrow> IP option"
  Iter :: "Bytes \<Rightarrow> elem list"

subsection \<open>isNull, lookupSorter and NewSortFn\<close>

type_synonym comparefn = "Bytes \<Rightarrow> Bytes \<Rightarrow> int"

definition isNull :: "Value \<Rightarrow> bool" where
  "isNull v \<longleftrightarrow> Type v = None \<or> Bytes v = None"

text \<open>\<open>if va < vb { return -1 } else if va > vb { return 1 }; return 0\<close>\<close>

definition three_way :: "'a::linorder \<Rightarrow> 'a \<Rightarrow> int" where
  "three_way va vb = (if va < vb then - 1 else if va > vb then 1 else 0)"

definition three_way_float64 :: "float64 \<Rightarrow> float64 \<Rightarrow> int" where
  "three_way_float64 va vb =
     (if float64_less va vb then - 1 else if float64_less vb va then 1 else 0)"

text \<open>
  The loop of the container comparator over the two iterators \<open>ia\<close> and \<open>ib\<close>, each the
  list of results still to come (\<open>Done\<close> is the empty list).
\<close>

fun compare_elems :: "comparefn \<Rightarrow> elem list \<Rightarrow> elem list \<Rightarrow> int" where
  "compare_elems compare [] [] = 0"
| "compare_elems compare [] (eb # ib) = - 1"
| "compare_elems compare (ea # ia) [] = 1"
| "compare_elems compare (ea # ia) (eb # ib) =
     (if container ea \<or> err ea then - 1
      else if container eb \<or> err eb then 1
      else if compare (val ea) (val eb) \<noteq> 0 then compare (val ea) (val eb)
      else compare_elems compare ia ib)"

fun lookupSorter :: "zng \<Rightarrow> zng_Type \<Rightarrow> comparefn" where
  "lookupSorter E (MkType i s (Some innerType)) =
     (\<lambda>a b. compare_elems (lookupSorter E innerType) (Iter E a) (Iter E b))"
| "lookupSorter E (MkType i s None) =
     (case i of
        IdBool \<Rightarrow> (\<lambda>a b.
          case DecodeBool E a of None \<Rightarrow> - 1 | Some va \<Rightarrow>
          (case DecodeBool E b of None \<Rightarrow> 1 | Some vb \<Rightarrow>
           if va = vb then 0 else if va then 1 else - 1))
      | IdString \<Rightarrow> (\<lambda>a b. bytes_Compare a b)
      | IdInt16 \<Rightarrow> (\<lambda>a b.
          case DecodeInt E a of None \<Rightarrow> - 1 | Some va \<Rightarrow>
          (case DecodeInt E b of None \<Rightarrow> 1 | Some vb \<Rightarrow> three_way va vb))
      | IdInt32 \<Rightarrow> (\<lambda>a b.
          case DecodeInt E a of None \<Rightarrow> - 1 | Some va \<Rightarrow>
          (case DecodeInt E b of None \<Rightarrow> 1 | Some vb \<Rightarrow> three_way va vb))
      | IdInt64 \<Rightarrow> (\<lambda>a b.
          case DecodeInt E a of None \<Rightarrow> - 1 | Some va \<Rightarrow>
          (case DecodeInt E b of None \<Rightarrow> 1 | Some vb \<Rightarrow> three_way va vb))
      | IdUint16 \<Rightarrow> (\<lambda>a b.
          case DecodeUint E a of None \<Rightarrow> - 1 | Some va \<Rightarrow>
          (case DecodeUint E b of None \<Rightarrow> 1 | Some vb \<Rightarrow> three_way va vb))
      | IdUint32 \<Rightarrow> (\<lambda>a b.
          case DecodeUint E a of None \<Rightarrow> - 1 | Some va \<Rightarrow>
          (case DecodeUint E b of None \<Rightarrow> 1 | Some vb \<Rightarrow> three_way va vb))
      | IdUint64 \<Rightarrow> (\<lambda>a b.
          case DecodeUint E a of None \<Rightarrow> - 1 | Some va \<Rightarrow>
          (case DecodeUint E b of None \<Rightarrow> 1 | Some vb \<Rightarrow> three_way va vb))
      | IdPort \<Rightarrow> (\<lambda>a b.
          case DecodePort E a of None \<Rightarrow> - 1 | Some va \<Rightarrow>
          (case DecodePort E b of None \<Rightarrow> 1 | Some vb \<Rightarrow> three_way va vb))
      | IdFloat64 \<Rightarrow> (\<lambda>a b.
          case DecodeFloat64 E a of None \<Rightarrow> - 1 | Some va \<Rightarrow>
          (case DecodeFloat64 E b of None \<Rightarrow> 1 | Some vb \<Rightarrow> three_way_float64 va vb))
      | IdTime \<Rightarrow> (\<lambda>a b.
          case DecodeTime E a of None \<Rightarrow> - 1 | Some va \<Rightarrow>
          (case DecodeTime E b of None \<Rightarrow> 1 | Some vb \<Rightarrow> three_way va vb))
      | IdDuration \<Rightarrow> (\<lambda>a b.
          case DecodeDuration E a of None \<Rightarrow> - 1 | Some va \<Rightarrow>
          (case DecodeDuration E b of None \<Rightarrow> 1 | Some vb \<Rightarrow> three_way va vb))
      | IdIP \<Rightarrow> (\<lambda>a b.
          case DecodeIP E a of None \<Rightarrow> - 1 | Some va \<Rightarrow>
          (case DecodeIP E b of None \<Rightarrow> 1 | Some vb \<Rightarrow> bytes_Compare (To16 va) (To16 vb)))
      | IdOther n \<Rightarrow> (\<lambda>a b. bytes_Compare a b))"

text \<open>
  \<open>NewSortFn\<close> returns a closure over the map \<open>sorters\<close>, which it fills as it meets
  types. The closure is modelled by state passing: it takes the map as it is before the
  call and returns the result together with the map after the call; the map a fresh
  closure starts from is empty. A \<open>FieldExprResolver\<close> is a function from the record to
  a \<open>zng.Value\<close>; \<open>'r\<close> is the record. Past the two null tests both values have a type,
  so \<open>the\<close> is applied to \<open>Some\<close> only (\<open>not_isNull\<close> below).
\<close>

type_synonym 'r FieldExprResolver = "'r \<Rightarrow> Value"
type_synonym sorters = "zng_Type \<Rightarrow> comparefn option"

fun sortfn_loop ::
  "zng \<Rightarrow> bool \<Rightarrow> 'r FieldExprResolver list \<Rightarrow> sorters \<Rightarrow> 'r \<Rightarrow> 'r \<Rightarrow> int \<times> sorters" where
  "sortfn_loop E nullsMax [] sorters ra rb = (0, sorters)"
| "sortfn_loop E nullsMax (resolver # fields') sorters ra rb =
     (let a = resolver ra; b = resolver rb;
          nullA = isNull a; nullB = isNull b
      in if nullA \<and> nullB then sortfn_loop E nullsMax fields' sorters ra rb
         else if nullA then (if nullsMax then 1 else - 1, sorters)
         else if nullB then (if nullsMax then - 1 else 1, sorters)
         else if ID (the (Type a)) \<noteq> ID (the (Type b)) then
           (bytes_Compare (string_bytes (String (the (Type a))))
                          (string_bytes (String (the (Type b)))), sorters)
         else
           let sf = (case sorters (the (Type a)) of
                       Some f \<Rightarrow> f
                     | None \<Rightarrow> lookupSorter E (the (Type a)));
               sorters' = (case sorters (the (Type a)) of
                       Some f \<Rightarrow> sorters
                     | None \<Rightarrow> sorters(the (Type a) \<mapsto> lookupSorter E (the (Type a))));
               v = sf (Bytes a) (Bytes b)
           in if v \<noteq> 0 then (v, sorters')
              else sortfn_loop E nullsMax fields' sorters' ra rb)"

definition NewSortFn ::
  "zng \<Rightarrow> bool \<Rightarrow> 'r FieldExprResolver list \<Rightarrow> sorters \<Rightarrow> 'r \<Rightarrow> 'r \<Rightarrow> int \<times> sorters" where
  "NewSortFn E nullsMax fields' = sortfn_loop E nullsMax fields'"

text \<open>
  The maps a comparator can hold: every entry was put there by the closure, so it is
  \<open>lookupSorter\<close> of its key.
\<close>

definition sorters_ok :: "zng \<Rightarrow> sorters \<Rightarrow> bool" where
  "sorters_ok E sorters \<longleftrightarrow> (\<forall>t f. sorters t = Some f \<longrightarrow> f = lookupSorter E t)"

subsection \<open>Notions the properties of the comparator are stated with\<close>

text \<open>
  The loop of the comparator goes on to the next field when both values are null, and
  when both are non-null, have the same type ID and the type's sorter returns 0: the
  field does not distinguish the two records.
\<close>

definition continues :: "zng \<Rightarrow> 'r FieldExprResolver \<Rightarrow> 'r \<Rightarrow> 'r \<Rightarrow> bool" where
  "continues E resolver ra rb \<longleftrightarrow>
     (isNull (resolver ra) \<and> isNull (resolver rb)) \<or>
     (\<not> isNull (resolver ra) \<and> \<not> isNull (resolver rb) \<and>
      ID (the (Type (resolver ra))) = ID (the (Type (resolver rb))) \<and>
      lookupSorter E (the (Type (resolver ra)))
        (Bytes (resolver ra)) (Bytes (resolver rb)) = 0)"



text \<open>
  A payload is well-formed for its type when every step the type's sorter takes on it
  succeeds: for a primitive type the decoder returns no error (strings and the types of
  the \<open>default\<close> case are compared as bytes and are never decoded); for a set or a
  sequence the iterator yields no error and no container, and every element is
  well-formed for the element type.
\<close>

fun decodable :: "zng \<Rightarrow> zng_Type \<Rightarrow> Bytes \<Rightarrow> bool" where
  "decodable E (MkType i s (Some innerType)) b =
     list_all (\<lambda>e. \<not> container e \<and> \<not> err e \<and> decodable E innerType (val e)) (Iter E b)"
| "decodable E (MkType i s None) b =
     (case i of
        IdBool \<Rightarrow> DecodeBool E b \<noteq> None
      | IdString \<Rightarrow> True
      | IdInt16 \<Rightarrow> DecodeInt E b \<noteq> None
      | IdInt32 \<Rightarrow> DecodeInt E b \<noteq> None
      | IdInt64 \<Rightarrow> DecodeInt E b \<noteq> None
      | IdUint16 \<Rightarrow> DecodeUint E b \<noteq> None
      | IdUint32 \<Rightarrow> DecodeUint E b \<noteq> None
      | IdUint64 \<Rightarrow> DecodeUint E b \<noteq> None
      | IdPort \<Rightarrow> DecodePort E b \<noteq> None
      | IdFloat64 \<Rightarrow> DecodeFloat64 E b \<noteq> None
      | IdTime \<Rightarrow> DecodeTime E b \<noteq> None
      | IdDuration \<Rightarrow> DecodeDuration E b \<noteq> None
      | IdIP \<Rightarrow> DecodeIP E b \<noteq> None
      | IdOther n \<Rightarrow> True)"

subsection \<open>A concrete package zng for the examples\<close>

text \<open>
  Modelled from the spec: the decoders of package \<open>zng\<close> and the iterator of package
  \<open>zcode\<close> are not among the sources. Section 4.B says that a decoder fails "on truncated
  or malformed bytes" and section 3 that containers "use a length-prefixed element
  encoding"; the byte layouts are not given. The decoders below fail on a \<open>nil\<close> value
  and on a payload of the wrong length: a boolean is one byte, a port two bytes, the
  64-bit numbers eight bytes (big-endian), an IP address 4 or 16 bytes. An element of a
  container is a tag byte \<open>2 * (n + 1) + c\<close> followed by \<open>n\<close> payload bytes, \<open>c\<close> being
  the container flag; the tags 0 and 1 are an unset element; fewer than \<open>n\<close> bytes left
  is an error. The theorems below hold for every package; this one is the instance the
  examples are evaluated on.
\<close>

definition be_nat :: "byte list \<Rightarrow> nat" where
  "be_nat bs = foldl (\<lambda>n b. 256 * n + unat b) 0 bs"

definition float64_of_bits :: "nat \<Rightarrow> float64" where
  "float64_of_bits n =
     (let e = (n div 2 ^ 52) mod 2 ^ 11; m = n mod 2 ^ 52; neg = (n div 2 ^ 63 = 1)
      in if e = 2047 then (if m \<noteq> 0 then NaN else if neg then NegInf else PosInf)
         else if e = 0 then Finite ((if neg then - 1 else 1) * real m / 2 ^ 1074)
         else Finite ((if neg then - 1 else 1) * real (2 ^ 52 + m) * 2 ^ e / 2 ^ 1075))"

definition fixed_width :: "nat \<Rightarrow> Bytes \<Rightarrow> nat option" where
  "fixed_width n b =
     (case b of None \<Rightarrow> None
      | Some bs \<Rightarrow> if length bs = n then Some (be_nat bs) else None)"

fun iter_elems :: "byte list \<Rightarrow> elem list" where
  "iter_elems [] = []"
| "iter_elems (t # bs) =
     (if unat t div 2 = 0 then
        \<lparr>val = None, container = odd (unat t), err = False\<rparr> # iter_elems bs
      else if length bs < unat t div 2 - 1 then
        [\<lparr>val = None, container = False, err = True\<rparr>]
      else
        \<lparr>val = Some (take (unat t div 2 - 1) bs), container = odd (unat t), err = False\<rparr>
          # iter_elems (drop (unat t div 2 - 1) bs))"

definition zng_spec :: zng where
  "zng_spec =
     \<lparr>DecodeBool = (\<lambda>b. map_option (\<lambda>n. n \<noteq> 0) (fixed_width 1 b)),
      DecodeInt = (\<lambda>b. map_option (\<lambda>n. sint (word_of_nat n :: 64 word)) (fixed_width 8 b)),
      DecodeUint = fixed_width 8,
      DecodePort = fixed_width 2,
      DecodeFloat64 = (\<lambda>b. map_option float64_of_bits (fixed_width 8 b)),
      DecodeTime = (\<lambda>b. map_option (\<lambda>n. sint (word_of_nat n :: 64 word)) (fixed_width 8 b)),
      DecodeDuration = (\<lambda>b. map_option (\<lambda>n. sint (word_of_nat n :: 64 word)) (fixed_width 8 b)),
      DecodeIP = (\<lambda>b. if length (slice b) = 4 \<or> length (slice b) = 16 then
                          (case b of None \<Rightarrow> None | Some bs \<Rightarrow> Some b) else None),
      Iter = (\<lambda>b. iter_elems (slice b))\<rparr>"

text \<open>
  The records of the examples are lists of column values, and the resolver of column
  \<open>k\<close> reads the value at position \<open>k\<close>; a missing column is the null value
  (section 4.D: a resolver "returns null on any missing field").
\<close>

definition null_value :: Value where
  "null_value = \<lparr>Type = None, Bytes = None\<rparr>"

definition column :: "nat \<Rightarrow> Value list FieldExprResolver" where
  "column k r = (if k < length r then r ! k else null_value)"

definition mk_value :: "zng_Type \<Rightarrow> byte list \<Rightarrow> Value" where
  "mk_value t bs = \<lparr>Type = Some t, Bytes = Some bs\<rparr>"

definition TypeIP :: zng_Type where
  "TypeIP = MkType IdIP ''ip'' None"

definition TypeInt64 :: zng_Type where
  "TypeInt64 = MkType IdInt64 ''int64'' None"

definition TypeString :: zng_Type where
  "TypeString = MkType IdString ''string'' None"

text \<open>Example records: an IP address, and rows of two columns.\<close>

definition ex_ip :: Value where
  "ex_ip = mk_value TypeIP [10, 0, 0, 1]"


definition ex_in :: "Value list" where
  "ex_in = [ex_ip, null_value]"

definition ex_ii :: "Value list" where
  "ex_ii = [ex_ip, ex_ip]"

definition ex_str :: Value where
  "ex_str = mk_value TypeString [104, 105]"

definition ex_is :: "Value list" where
  "ex_is = [ex_ip, ex_str]"

definition ex_ip16 :: Value where
  "ex_ip16 = mk_value TypeIP [0, 0, 0, 0, 0, 0, 0, 0, 0, 0, 255, 255, 10, 0, 0, 1]"

definition ex_ip2 :: Value where
  "ex_ip2 = mk_value TypeIP [10, 0, 0, 2]"

definition ex_ip3 :: Value where
  "ex_ip3 = mk_value TypeIP [10, 0, 0]"

section \<open>zqd/ingest: the readers of a log ingest\<close>

subsection \<open>The path a file name gives: DefaultJSONPathRegexp\<close>

text \<open>
  \<open>configureJSONTypeReader\<close> matches the file name against
  \<^verbatim>\<open>([a-zA-Z0-9_]+)(?:\.|_\d{8}_)\d\d:\d\d:\d\d\-\d\d:\d\d:\d\d(?:[+\-]\d{4})?\.log(?:$|\.gz)\<close>
  with \<open>FindStringSubmatch\<close> and takes the first group of the leftmost match as the
  path; without a match the path is empty. The matcher below is this one expression:
  \<open>eat\<close> consumes one character per class, \<open>after_group\<close> is everything after the
  group, and the group is tried at the leftmost start, longest first.
\<close>

definition is_digit :: "char \<Rightarrow> bool" where
  "is_digit c \<longleftrightarrow> 48 \<le> (of_char c :: nat) \<and> (of_char c :: nat) \<le> 57"

definition is_word :: "char \<Rightarrow> bool" where
  "is_word c \<longleftrightarrow>
     is_digit c \<or> c = CHR ''_'' \<or>
     (65 \<le> (of_char c :: nat) \<and> (of_char c :: nat) \<le> 90) \<or>
     (97 \<le> (of_char c :: nat) \<and> (of_char c :: nat) \<le> 122)"

fun eat :: "(char \<Rightarrow> bool) list \<Rightarrow> string \<Rightarrow> string option" where
  "eat [] str = Some str"
| "eat (p # ps) [] = None"
| "eat (p # ps) (c # str) = (if p c then eat ps str else None)"

definition lit :: "string \<Rightarrow> (char \<Rightarrow> bool) list" where
  "lit s = map (\<lambda>c d. d = c) s"

definition digits :: "nat \<Rightarrow> (char \<Rightarrow> bool) list" where
  "digits n = replicate n is_digit"

text \<open>\<^verbatim>\<open>\.log(?:$|\.gz)\<close>\<close>

definition log_suffix :: "string \<Rightarrow> bool" where
  "log_suffix str =
     (case eat (lit ''.log'') str of
        None \<Rightarrow> False
      | Some t \<Rightarrow> t = [] \<or> eat (lit ''.gz'') t \<noteq> None)"

text \<open>\<^verbatim>\<open>\d\d:\d\d:\d\d\-\d\d:\d\d:\d\d(?:[+\-]\d{4})?\<close> and the suffix\<close>

definition time_range :: "(char \<Rightarrow> bool) list" where
  "time_range =
     digits 2 @ lit '':'' @ digits 2 @ lit '':'' @ digits 2 @ lit ''-'' @
     digits 2 @ lit '':'' @ digits 2 @ lit '':'' @ digits 2"

definition after_separator :: "string \<Rightarrow> bool" where
  "after_separator str =
     (case eat time_range str of
        None \<Rightarrow> False
      | Some t \<Rightarrow>
          (case eat ((\<lambda>c. c = CHR ''+'' \<or> c = CHR ''-'') # digits 4) t of
             Some u \<Rightarrow> log_suffix u \<or> log_suffix t
           | None \<Rightarrow> log_suffix t))"

text \<open>\<^verbatim>\<open>(?:\.|_\d{8}_)\<close> and what follows\<close>

definition after_group :: "string \<Rightarrow> bool" where
  "after_group str =
     ((case eat (lit ''.'') str of Some t \<Rightarrow> after_separator t | None \<Rightarrow> False) \<or>
      (case eat (lit ''_'' @ digits 8 @ lit ''_'') str of
         Some t \<Rightarrow> after_separator t | None \<Rightarrow> False))"

fun group_at :: "string \<Rightarrow> nat \<Rightarrow> string option" where
  "group_at str 0 = None"
| "group_at str (Suc n) =
     (if after_group (drop (Suc n) str) then Some (take (Suc n) str) else group_at str n)"

fun FindStringSubmatch :: "string \<Rightarrow> string option" where
  "FindStringSubmatch [] = None"
| "FindStringSubmatch (c # str) =
     (case group_at (c # str) (length (takeWhile is_word (c # str))) of
        Some g \<Rightarrow> Some g
      | None \<Rightarrow> FindStringSubmatch str)"

subsection \<open>ingestLogs and compileLogIngest\<close>

text \<open>
  \<open>ingestLogs\<close> opens a reader for every path of the request, \<open>compileLogIngest\<close>
  hands the readers to \<open>scanner.NewCombiner\<close>, and \<open>driver.Run\<close> runs the query over
  the combiner. Paths and errors are strings (an error is its message). The packages
  \<open>scanner\<close>, \<open>ndjsonio\<close>, \<open>zql\<close> and \<open>space\<close> are not among the sources; what
  \<open>ingestLogs\<close> calls in them is a parameter: \<open>scanner.OpenFile\<close>, the type assertion
  \<open>sf.Reader.(*ndjsonio.Reader)\<close>, \<open>ConfigureTypes\<close> (which changes the reader it is
  called on: it returns an error or the reader after the call), \<open>s.CreateFile\<close> and
  \<open>zql.ParseProc\<close> (\<open>None\<close>: no error), and for every reader the results of its
  successive \<open>Read\<close> calls up to the end of its stream. \<open>'rd\<close> is a reader, \<open>'c\<close> a JSON
  type configuration, \<open>'rec\<close> a record.
\<close>

datatype 'rec result = Record 'rec | ReadError string

record ('rd, 'c, 'rec) packages =
  OpenFile :: "string \<Rightarrow> string + 'rd"
  is_ndjson :: "'rd \<Rightarrow> bool"
  ConfigureTypes :: "'rd \<Rightarrow> 'c \<Rightarrow> string \<Rightarrow> string + 'rd"
  CreateFile :: "string option"
  ParseProc :: "string \<Rightarrow> string option"
  Reads :: "'rd \<Rightarrow> 'rec result list"

record 'c LogPostRequest =
  Paths :: "string list"
  StopErr :: bool
  JSONTypeConfig :: "'c option"

text \<open>\<open>api.LogPostWarning{Type: "LogPostWarning", Warning: fmt.Sprintf("%s: %s", path, err)}\<close>\<close>

record LogPostWarning =
  Type' :: string
  Warning :: string

definition warning :: "string \<Rightarrow> string \<Rightarrow> LogPostWarning" where
  "warning path e = \<lparr>Type' = ''LogPostWarning'', Warning = path @ '': '' @ e\<rparr>"

definition configureJSONTypeReader ::
  "('rd, 'c, 'rec) packages \<Rightarrow> 'rd \<Rightarrow> 'c \<Rightarrow> string \<Rightarrow> string + 'rd" where
  "configureJSONTypeReader X ndjr tc filename =
     ConfigureTypes X ndjr tc
       (case FindStringSubmatch filename of Some g \<Rightarrow> g | None \<Rightarrow> [])"

text \<open>
  The loop of \<open>ingestLogs\<close> over \<open>req.Paths\<close>. The state is the slice \<open>readers\<close> and
  the messages sent on the JSON pipe so far (\<open>pipe.Send\<close>, whose result the loop
  ignores). The result is the error \<open>ingestLogs\<close> returns from inside the loop, if any,
  with the state at that point.
\<close>

fun ingestLogs_loop ::
  "('rd, 'c, 'rec) packages \<Rightarrow> 'c LogPostRequest \<Rightarrow> string list \<Rightarrow> 'rd list \<Rightarrow>
     LogPostWarning list \<Rightarrow> string option \<times> 'rd list \<times> LogPostWarning list" where
  "ingestLogs_loop X req [] readers pipe = (None, readers, pipe)"
| "ingestLogs_loop X req (path # paths) readers pipe =
     (case OpenFile X path of
        Inl e \<Rightarrow>
          if StopErr req then (Some e, readers, pipe)
          else ingestLogs_loop X req paths readers (pipe @ [warning path e])
      | Inr sf \<Rightarrow>
          if is_ndjson X sf \<and> JSONTypeConfig req \<noteq> None then
            (case configureJSONTypeReader X sf (the (JSONTypeConfig req)) path of
               Inl e \<Rightarrow> (Some e, readers, pipe)
             | Inr jr \<Rightarrow> ingestLogs_loop X req paths (readers @ [jr]) pipe)
          else ingestLogs_loop X req paths (readers @ [sf]) pipe)"

text \<open>
  \<open>compileLogIngest\<close>: an error of \<open>zql.ParseProc\<close> is returned; with \<open>stopErr\<close> the
  readers go to \<open>scanner.NewCombiner\<close> as they are; otherwise every reader is replaced
  by \<open>scanner.WarningReader(r, wch)\<close> on one channel \<open>wch\<close>, which is also given to the
  driver. The result is the list given to the combiner.
\<close>

datatype 'rd combined = Plain 'rd | WarningReader 'rd

definition compileLogIngest ::
  "('rd, 'c, 'rec) packages \<Rightarrow> 'rd list \<Rightarrow> string \<Rightarrow> bool \<Rightarrow> string + 'rd combined list" where
  "compileLogIngest X rs prog stopErr =
     (case ParseProc X prog of
        Some e \<Rightarrow> Inl e
      | None \<Rightarrow> if stopErr then Inr (map Plain rs) else Inr (map WarningReader rs))"

text \<open>
  Modelled from the spec: \<open>scanner.NewCombiner\<close>, \<open>scanner.WarningReader\<close> and
  \<open>driver.Run\<close> are not among the sources. Section 4.K: the combiner "merges multiple
  readers into one ordered (or unordered) stream; each pull asks from the reader
  currently holding the smallest ts, if ordering is required, else round-robins. On
  reader error, if stop-on-error is set, the whole query fails; otherwise the combiner
  emits a warning (via a side channel) and drops that reader"; section 4.J: the driver
  drives the stream "until end-of-stream". \<open>run_query\<close> is the run of the query over
  the combiner, round-robin: the argument is the queue of readers, each with the
  results its \<open>Read\<close> calls still return; the result is the error the run ends with,
  if any, the records pulled, and the warnings put on the side channel. A reader at
  the end of its stream leaves the queue; an error of a \<open>Plain\<close> reader ends the run
  with that error; an error of a \<open>WarningReader\<close> becomes a warning and the reader
  leaves the queue.
\<close>

definition reader_size :: "'rec result list combined \<Rightarrow> nat" where
  "reader_size r = (case r of Plain x \<Rightarrow> Suc (length x) | WarningReader x \<Rightarrow> Suc (length x))"

function run_query ::
  "'rec result list combined list \<Rightarrow> string option \<times> 'rec list \<times> string list" where
  "run_query [] = (None, [], [])"
| "run_query (Plain [] # q) = run_query q"
| "run_query (Plain (Record x # r) # q) =
     (case run_query (q @ [Plain r]) of (e, recs, ws) \<Rightarrow> (e, x # recs, ws))"
| "run_query (Plain (ReadError e # r) # q) = (Some e, [], [])"
| "run_query (WarningReader [] # q) = run_query q"
| "run_query (WarningReader (Record x # r) # q) =
     (case run_query (q @ [WarningReader r]) of (e, recs, ws) \<Rightarrow> (e, x # recs, ws))"
| "run_query (WarningReader (ReadError e # r) # q) =
     (case run_query q of (e', recs, ws) \<Rightarrow> (e', recs, e # ws))"
  by pat_completeness auto
termination
  by (relation "measure (\<lambda>q. sum_list (map reader_size q))") (simp_all add: reader_size_def)

text \<open>
  \<open>ingestLogs\<close> up to the return of \<open>driver.Run\<close>: the error it returns by then, if any,
  the warnings sent on the pipe, the warnings put on the side channel, and the records
  the query pulled. \<open>prog\<close> is the program text \<open>ingestLogs\<close> builds from the sort limit.
  The steps after \<open>driver.Run\<close> (closing and renaming the file, the times of the space,
  the final status) are not modelled.
\<close>

record 'rec ingested =
  error :: "string option"
  pipe_warnings :: "LogPostWarning list"
  channel_warnings :: "string list"
  pulled :: "'rec list"

definition reader_results ::
  "('rd, 'c, 'rec) packages \<Rightarrow> 'rd combined \<Rightarrow> 'rec result list combined" where
  "reader_results X r = (case r of Plain rd \<Rightarrow> Plain (Reads X rd)
                         | WarningReader rd \<Rightarrow> WarningReader (Reads X rd))"

definition ingestLogs ::
  "('rd, 'c, 'rec) packages \<Rightarrow> 'c LogPostRequest \<Rightarrow> string \<Rightarrow> 'rec ingested" where
  "ingestLogs X req prog =
     (case ingestLogs_loop X req (Paths req) [] [] of
        (Some e, readers, pipe) \<Rightarrow>
          \<lparr>error = Some e, pipe_warnings = pipe, channel_warnings = [], pulled = []\<rparr>
      | (None, readers, pipe) \<Rightarrow>
          (case CreateFile X of
             Some e \<Rightarrow>
               \<lparr>error = Some e, pipe_warnings = pipe, channel_warnings = [], pulled = []\<rparr>
           | None \<Rightarrow>
               (case compileLogIngest X readers prog (StopErr req) of
                  Inl e \<Rightarrow>
                    \<lparr>error = Some e, pipe_warnings = pipe, channel_warnings = [], pulled = []\<rparr>
                | Inr mux \<Rightarrow>
                    (case run_query (map (reader_results X) mux) of
                       (e, recs, ws) \<Rightarrow>
                         \<lparr>error = e, pipe_warnings = pipe, channel_warnings = ws,
                          pulled = recs\<rparr>))))"

subsection \<open>Notions the properties of the ingest are stated with\<close>

text \<open>
  What happens to one path: opening fails, the JSON type configuration of its reader
  fails, or ingest gets a reader for it.
\<close>

datatype 'rd outcome = OpenFailed string | ConfigFailed string | Usable 'rd

definition outcome ::
  "('rd, 'c, 'rec) packages \<Rightarrow> 'c LogPostRequest \<Rightarrow> string \<Rightarrow> 'rd outcome" where
  "outcome X req path =
     (case OpenFile X path of
        Inl e \<Rightarrow> OpenFailed e
      | Inr sf \<Rightarrow>
          (case JSONTypeConfig req of
             None \<Rightarrow> Usable sf
           | Some tc \<Rightarrow>
               if is_ndjson X sf then
                 (case configureJSONTypeReader X sf tc path of
                    Inl e \<Rightarrow> ConfigFailed e | Inr jr \<Rightarrow> Usable jr)
               else Usable sf))"

definition usable_readers ::
  "('rd, 'c, 'rec) packages \<Rightarrow> 'c LogPostRequest \<Rightarrow> string list \<Rightarrow> 'rd list" where
  "usable_readers X req paths =
     List.map_filter (\<lambda>p. case outcome X req p of Usable r \<Rightarrow> Some r | _ \<Rightarrow> None) paths"

definition open_warnings ::
  "('rd, 'c, 'rec) packages \<Rightarrow> 'c LogPostRequest \<Rightarrow> string list \<Rightarrow> LogPostWarning list" where
  "open_warnings X req paths =
     List.map_filter
       (\<lambda>p. case outcome X req p of OpenFailed e \<Rightarrow> Some (warning p e) | _ \<Rightarrow> None) paths"

definition is_usable :: "'rd outcome \<Rightarrow> bool" where
  "is_usable out = (case out of Usable r \<Rightarrow> True | _ \<Rightarrow> False)"

definition is_config_failed :: "'rd outcome \<Rightarrow> bool" where
  "is_config_failed out = (case out of ConfigFailed e \<Rightarrow> True | _ \<Rightarrow> False)"

text \<open>The first error among the results of a reader, and the records before it.\<close>

fun first_error :: "'rec result list \<Rightarrow> string option" where
  "first_error [] = None"
| "first_error (Record x # r) = first_error r"
| "first_error (ReadError e # r) = Some e"

fun records_before_error :: "'rec result list \<Rightarrow> 'rec list" where
  "records_before_error [] = []"
| "records_before_error (Record x # r) = x # records_before_error r"
| "records_before_error (ReadError e # r) = []"

subsection \<open>An example\<close>

text \<open>
  Three log files with the names Zeek gives them, one file that does not exist, and a
  type configuration that knows the paths \<open>conn\<close> and \<open>dns\<close>. Readers are numbers and
  records are numbers; the second \<open>Read\<close> of the reader of the dns log fails.
\<close>

definition conn_log :: string where
  "conn_log = ''conn.14:00:00-15:00:00.log.gz''"

definition dns_log :: string where
  "dns_log = ''dns_20191101_14:00:00-15:00:00+0000.log.gz''"

definition weird_log :: string where
  "weird_log = ''weird.14:00:00-15:00:00.log''"

definition missing_log :: string where
  "missing_log = ''http.14:00:00-15:00:00.log''"

definition ex_packages :: "(nat, string list, nat) packages" where
  "ex_packages =
     \<lparr>OpenFile = (\<lambda>p. if p = missing_log then Inl ''no such file''
                       else if p = conn_log then Inr 1
                       else if p = dns_log then Inr 2 else Inr 3),
      is_ndjson = (\<lambda>r. True),
      ConfigureTypes = (\<lambda>r tc path. if path \<in> set tc then Inr r else Inl ''unknown path''),
      CreateFile = None,
      ParseProc = (\<lambda>prog. None),
      Reads = (\<lambda>r. if r = 1 then [Record 10, Record 11]
                    else if r = 2 then [Record 20, ReadError ''bad line'', Record 21]
                    else [])\<rparr>"

definition ex_request :: "bool \<Rightarrow> string list \<Rightarrow> string list LogPostRequest" where
  "ex_request stop paths =
     \<lparr>Paths = paths, StopErr = stop, JSONTypeConfig = Some [''conn'', ''dns'']\<rparr>"

definition ex_prog :: string where
  "ex_prog = ''sort -limit 1000000 -r ts | (filter *; head 1; tail 1)''"

section \<open>Properties of the Array batch\<close>

lemma refcall_apply_id: "refcall_apply c b = b"
  by (cases c) (simp_all add: Ref_def Unref_def)

lemma refcalls_id: "refcalls cs b = b"
  unfolding refcalls_def by (induction cs) (simp_all add: refcall_apply_id)

text \<open>
  C7. Any sequence of \<open>Ref\<close> and \<open>Unref\<close> calls, in any order, leaves the batch's
  observables as they were: \<open>Length\<close>, \<open>Records\<close>, \<open>Index k\<close> for every \<open>k\<close>, and \<open>Span\<close>.
\<close>

theorem Ref_Unref_frame:
  "Length (refcalls cs b) = Length b \<and>
   Records (refcalls cs b) = Records b \<and>
   (\<forall>k. Index (refcalls cs b) k = Index b k) \<and>
   Span (refcalls cs b) = Span b"
  by (simp add: refcalls_id)

text \<open>
  C9, as amended: for every index \<open>k \<ge> 0\<close>, \<open>Index\<close> does not panic; it returns the
  record at position \<open>k\<close> when \<open>k < Length\<close> and \<open>nil\<close> when \<open>k \<ge> Length\<close>.
\<close>

theorem Index_cases:
  "(0 \<le> k \<and> k < Length a \<longrightarrow> Index a k = Inr (records a ! nat k)) \<and>
   (Length a \<le> k \<longrightarrow> Index a k = Inr None)"
  by (simp add: Index_def Length_def slice_index_def)

theorem Index_cases_witness:
  "Index (NewArray [Some (7::nat), Some 8] (0::nat)) 1 = Inr (Some 8) \<and>
   Index (NewArray [Some (7::nat), Some 8] (0::nat)) 2 = Inr None"
  using Index_cases [of 1 "NewArray [Some (7::nat), Some 8] (0::nat)"]
        Index_cases [of 2 "NewArray [Some (7::nat), Some 8] (0::nat)"]
  by (simp add: NewArray_def Length_def)

text \<open>
  C9 as stated fails at a negative index: the guard \<open>k < len(a.records)\<close> holds, and the
  indexing expression panics.
\<close>

theorem Index_negative_panics:
  "Index (NewArray [Some (7::nat)] (0::nat)) (- 1) = Inl IndexOutOfRange"
  by (simp add: Index_def NewArray_def slice_index_def)

section \<open>Properties of the stream functions\<close>

lemma Min_State_updates:
  "Update p = (\<lambda>st v. if v < st then v else st) \<Longrightarrow>
   State (updates p vs) = Min (insert (State p) (set vs))"
proof (induction vs arbitrary: p)
  case Nil
  then show ?case by (simp add: updates_def)
next
  case (Cons v vs)
  let ?q = "call_Update p v"
  have upd: "Update ?q = (\<lambda>st v. if v < st then v else st)"
    using Cons.prems by (simp add: call_Update_def)
  have st: "State ?q = min v (State p)"
    using Cons.prems by (auto simp: call_Update_def min_def)
  have "State (updates p (v # vs)) = State (updates ?q vs)"
    by (simp add: updates_def)
  also have "\<dots> = Min (insert (State ?q) (set vs))"
    using Cons.IH [OF upd] .
  also have "\<dots> = Min (insert (State p) (set (v # vs)))"
  proof (cases "set vs = {}")
    case True
    then show ?thesis by (simp add: st min.commute)
  next
    case False
    then show ?thesis
      by (simp add: st Min_insert min.assoc min.left_commute min.commute)
  qed
  finally show ?case .
qed

text \<open>
  C10. For \<open>NewUint64("Min")\<close>: after any finite sequence of \<open>Update\<close> calls \<open>State\<close> is the
  minimum of the supplied values, and it is \<open>2^64 - 1\<close> when there were none.
  \<open>NewUint64\<close> returns \<open>nil\<close> for every \<open>op\<close> other than "Sum", "Min" and "Max".
\<close>

theorem NewUint64_Min:
  "(\<exists>p. NewUint64 ''Min'' = Some p \<and>
        unat (State (updates p [])) = 2 ^ 64 - 1 \<and>
        (\<forall>vs. vs \<noteq> [] \<longrightarrow> State (updates p vs) = Min (set vs))) \<and>
   (op \<notin> {''Sum'', ''Min'', ''Max''} \<longrightarrow> NewUint64 op = None)"
proof -
  let ?p = "\<lparr>State = MaxUint64, Update = (\<lambda>st v. if v < st then v else st)\<rparr>"
  have new: "NewUint64 ''Min'' = Some ?p"
    by (simp add: NewUint64_def)
  have empty: "unat (State (updates ?p [])) = 2 ^ 64 - 1"
    by (simp add: updates_def MaxUint64_def)
  have top: "x \<le> MaxUint64" for x :: uint64
  proof -
    have "MaxUint64 = - 1" by (simp add: MaxUint64_def)
    moreover have "x \<le> - 1" by (rule word_n1_ge)
    ultimately show ?thesis by (simp only:)
  qed
  have many: "State (updates ?p vs) = Min (set vs)" if "vs \<noteq> []" for vs
  proof -
    have "State (updates ?p vs) = Min (insert MaxUint64 (set vs))"
      using Min_State_updates [of ?p vs] by simp
    also have "\<dots> = min MaxUint64 (Min (set vs))"
      using that by (simp add: Min_insert)
    also have "\<dots> = Min (set vs)"
      using top [of "Min (set vs)"] by (simp add: min.absorb2)
    finally show ?thesis .
  qed
  have other: "op \<notin> {''Sum'', ''Min'', ''Max''} \<longrightarrow> NewUint64 op = None"
    by (simp add: NewUint64_def)
  from new empty many other show ?thesis by blast
qed

theorem NewUint64_Min_witness:
  "State (updates (the (NewUint64 ''Min'')) [5, 3, 9]) = 3 \<and>
   unat (State (updates (the (NewUint64 ''Min'')) [])) = 2 ^ 64 - 1 \<and>
   NewUint64 ''Avg'' = None \<and> NewUint64 ''min'' = None"
proof -
  obtain p where p: "NewUint64 ''Min'' = Some p"
      "unat (State (updates p [])) = 2 ^ 64 - 1"
      "\<forall>vs. vs \<noteq> [] \<longrightarrow> State (updates p vs) = Min (set vs)"
    using NewUint64_Min [of "''Avg''"] by blast
  have "State (updates p [5, 3, 9]) = Min (set [5, 3, 9])"
    using p(3) by blast
  moreover have "Min (set [5, 3, 9 :: uint64]) = 3"
    by simp
  moreover have "NewUint64 ''Avg'' = None"
    using NewUint64_Min [of "''Avg''"] by simp
  moreover have "NewUint64 ''min'' = None"
    using NewUint64_Min [of "''min''"] by simp
  ultimately show ?thesis using p(1,2) by simp
qed

section \<open>Properties of the record comparator\<close>

subsection \<open>The map of sorters does not change what the comparator returns\<close>

lemma not_isNull: "\<not> isNull v \<Longrightarrow> \<exists>t b. Type v = Some t \<and> Bytes v = Some b"
  by (auto simp: isNull_def)

lemma sorters_ok_empty: "sorters_ok E Map.empty"
  by (simp add: sorters_ok_def)

lemma sorters_ok_lookup:
  "sorters_ok E s \<Longrightarrow> (case s t of Some f \<Rightarrow> f | None \<Rightarrow> lookupSorter E t) = lookupSorter E t"
  by (auto simp: sorters_ok_def split: option.splits)

lemma sorters_ok_store:
  "sorters_ok E s \<Longrightarrow>
   sorters_ok E (case s t of Some f \<Rightarrow> s | None \<Rightarrow> s(t \<mapsto> lookupSorter E t))"
  by (auto simp: sorters_ok_def split: option.splits)

lemma sortfn_loop_step:
  "sortfn_loop E nm (f # fs) s ra rb =
    (if isNull (f ra) \<and> isNull (f rb) then sortfn_loop E nm fs s ra rb
     else if isNull (f ra) then (if nm then 1 else - 1, s)
     else if isNull (f rb) then (if nm then - 1 else 1, s)
     else if ID (the (Type (f ra))) \<noteq> ID (the (Type (f rb))) then
       (bytes_Compare (string_bytes (String (the (Type (f ra)))))
                      (string_bytes (String (the (Type (f rb))))), s)
     else if (case s (the (Type (f ra))) of Some g \<Rightarrow> g
              | None \<Rightarrow> lookupSorter E (the (Type (f ra)))) (Bytes (f ra)) (Bytes (f rb)) \<noteq> 0
     then ((case s (the (Type (f ra))) of Some g \<Rightarrow> g
              | None \<Rightarrow> lookupSorter E (the (Type (f ra)))) (Bytes (f ra)) (Bytes (f rb)),
           case s (the (Type (f ra))) of Some g \<Rightarrow> s
              | None \<Rightarrow> s(the (Type (f ra)) \<mapsto> lookupSorter E (the (Type (f ra)))))
     else sortfn_loop E nm fs
           (case s (the (Type (f ra))) of Some g \<Rightarrow> s
              | None \<Rightarrow> s(the (Type (f ra)) \<mapsto> lookupSorter E (the (Type (f ra))))) ra rb)"
  unfolding sortfn_loop.simps Let_def by (rule refl)


lemma sortfn_loop_step_ok:
  assumes "sorters_ok E s"
  shows "sortfn_loop E nm (f # fs) s ra rb =
    (if isNull (f ra) \<and> isNull (f rb) then sortfn_loop E nm fs s ra rb
     else if isNull (f ra) then (if nm then 1 else - 1, s)
     else if isNull (f rb) then (if nm then - 1 else 1, s)
     else if ID (the (Type (f ra))) \<noteq> ID (the (Type (f rb))) then
       (bytes_Compare (string_bytes (String (the (Type (f ra)))))
                      (string_bytes (String (the (Type (f rb))))), s)
     else if lookupSorter E (the (Type (f ra))) (Bytes (f ra)) (Bytes (f rb)) \<noteq> 0
     then (lookupSorter E (the (Type (f ra))) (Bytes (f ra)) (Bytes (f rb)),
           case s (the (Type (f ra))) of Some g \<Rightarrow> s
              | None \<Rightarrow> s(the (Type (f ra)) \<mapsto> lookupSorter E (the (Type (f ra)))))
     else sortfn_loop E nm fs
           (case s (the (Type (f ra))) of Some g \<Rightarrow> s
              | None \<Rightarrow> s(the (Type (f ra)) \<mapsto> lookupSorter E (the (Type (f ra))))) ra rb)"
  by (simp only: sortfn_loop_step sorters_ok_lookup [OF assms])

lemma sortfn_loop_sorters:
  "sorters_ok E s \<Longrightarrow> sorters_ok E s' \<Longrightarrow>
   fst (sortfn_loop E nm fs s ra rb) = fst (sortfn_loop E nm fs s' ra rb) \<and>
   sorters_ok E (snd (sortfn_loop E nm fs s ra rb))"
proof (induction fs arbitrary: s s')
  case Nil
  then show ?case by simp
next
  case (Cons f fs)
  let ?t = "the (Type (f ra))"
  let ?s1 = "case s ?t of Some g \<Rightarrow> s | None \<Rightarrow> s(?t \<mapsto> lookupSorter E ?t)"
  let ?s2 = "case s' ?t of Some g \<Rightarrow> s' | None \<Rightarrow> s'(?t \<mapsto> lookupSorter E ?t)"
  have ok1: "sorters_ok E ?s1"
    using Cons.prems(1) by (rule sorters_ok_store)
  have ok2: "sorters_ok E ?s2"
    using Cons.prems(2) by (rule sorters_ok_store)
  note st1 = sortfn_loop_step_ok [OF Cons.prems(1), of nm f fs ra rb]
  note st2 = sortfn_loop_step_ok [OF Cons.prems(2), of nm f fs ra rb]
  note ih0 = Cons.IH [OF Cons.prems]
  note ih1 = Cons.IH [OF ok1 ok2]
  consider (both) "isNull (f ra) \<and> isNull (f rb)"
    | (nullA) "\<not> (isNull (f ra) \<and> isNull (f rb))" "isNull (f ra)"
    | (nullB) "\<not> isNull (f ra)" "isNull (f rb)"
    | (types) "\<not> isNull (f ra)" "\<not> isNull (f rb)"
        "ID (the (Type (f ra))) \<noteq> ID (the (Type (f rb)))"
    | (differ) "\<not> isNull (f ra)" "\<not> isNull (f rb)"
        "ID (the (Type (f ra))) = ID (the (Type (f rb)))"
        "lookupSorter E ?t (Bytes (f ra)) (Bytes (f rb)) \<noteq> 0"
    | (equal) "\<not> isNull (f ra)" "\<not> isNull (f rb)"
        "ID (the (Type (f ra))) = ID (the (Type (f rb)))"
        "lookupSorter E ?t (Bytes (f ra)) (Bytes (f rb)) = 0"
    by blast
  then show ?case
  proof cases
    case both
    then show ?thesis using ih0 by (simp only: st1 st2 if_True simp_thms)
  next
    case nullA
    then show ?thesis using Cons.prems(1)
      by (simp only: st1 st2 if_True if_False simp_thms fst_conv snd_conv)
  next
    case nullB
    then show ?thesis using Cons.prems(1)
      by (simp only: st1 st2 if_True if_False simp_thms fst_conv snd_conv)
  next
    case types
    then show ?thesis using Cons.prems(1)
      by (simp only: st1 st2 if_True if_False simp_thms fst_conv snd_conv not_False_eq_True)
  next
    case differ
    then show ?thesis using ok1
      by (simp only: st1 st2 if_True if_False simp_thms fst_conv snd_conv not_False_eq_True)
  next
    case equal
    then show ?thesis using ih1
      by (simp only: st1 st2 if_True if_False simp_thms fst_conv snd_conv not_True_eq_False)
  qed
qed

lemma sortfn_loop_Cons:
  assumes "sorters_ok E s"
  shows "fst (sortfn_loop E nm (f # fs) s ra rb) =
    (if isNull (f ra) \<and> isNull (f rb) then fst (sortfn_loop E nm fs s ra rb)
     else if isNull (f ra) then (if nm then 1 else - 1)
     else if isNull (f rb) then (if nm then - 1 else 1)
     else if ID (the (Type (f ra))) \<noteq> ID (the (Type (f rb))) then
       bytes_Compare (string_bytes (String (the (Type (f ra)))))
                     (string_bytes (String (the (Type (f rb)))))
     else if lookupSorter E (the (Type (f ra))) (Bytes (f ra)) (Bytes (f rb)) \<noteq> 0 then
       lookupSorter E (the (Type (f ra))) (Bytes (f ra)) (Bytes (f rb))
     else fst (sortfn_loop E nm fs s ra rb))"
proof -
  let ?t = "the (Type (f ra))"
  let ?s1 = "case s ?t of Some g \<Rightarrow> s | None \<Rightarrow> s(?t \<mapsto> lookupSorter E ?t)"
  have ok1: "sorters_ok E ?s1"
    using assms by (rule sorters_ok_store)
  have nxt: "fst (sortfn_loop E nm fs ?s1 ra rb) = fst (sortfn_loop E nm fs s ra rb)"
    using sortfn_loop_sorters [OF ok1 assms, of nm fs ra rb] by (rule conjunct1)
  show ?thesis
    by (simp only: sortfn_loop_step_ok [OF assms] if_distrib [of fst] fst_conv nxt)
qed

lemma sortfn_loop_continues:
  assumes "sorters_ok E s" and "continues E g ra rb"
  shows "fst (sortfn_loop E nm (g # fs) s ra rb) = fst (sortfn_loop E nm fs s ra rb)"
  using assms(2) unfolding continues_def
  by (auto simp only: sortfn_loop_Cons [OF assms(1)] if_True if_False simp_thms)

lemma sortfn_loop_append:
  assumes "sorters_ok E s" and "\<forall>g\<in>set pre. continues E g ra rb"
  shows "fst (sortfn_loop E nm (pre @ post) s ra rb) = fst (sortfn_loop E nm post s ra rb)"
  using assms(2)
proof (induction pre)
  case Nil
  show ?case by (simp only: append_Nil)
next
  case (Cons g pre)
  then have c: "continues E g ra rb" and rest: "\<forall>g\<in>set pre. continues E g ra rb"
    by simp_all
  have "fst (sortfn_loop E nm ((g # pre) @ post) s ra rb) =
        fst (sortfn_loop E nm (pre @ post) s ra rb)"
    using sortfn_loop_continues [OF assms(1) c] by (simp only: append_Cons)
  then show ?case using Cons.IH [OF rest] by (simp only:)
qed

subsection \<open>Reflexivity and records with null keys\<close>

lemma compare_lex_refl: "compare_lex xs xs = 0"
  by (induction xs) simp_all

lemma bytes_Compare_refl: "bytes_Compare b b = 0"
  by (simp add: bytes_Compare_def compare_lex_refl)

lemma float64_less_irrefl: "\<not> float64_less v v"
  by (cases v) simp_all

lemma three_way_refl: "three_way v v = 0"
  by (simp add: three_way_def)

lemma three_way_float64_refl: "three_way_float64 v v = 0"
  by (simp add: three_way_float64_def float64_less_irrefl)

lemma compare_elems_refl:
  "list_all (\<lambda>e. \<not> container e \<and> \<not> err e \<and> cmp (val e) (val e) = 0) es \<Longrightarrow>
   compare_elems cmp es es = 0"
  by (induction es) simp_all

lemma lookupSorter_refl: "decodable E t b \<Longrightarrow> lookupSorter E t b b = 0"
proof (induction E t arbitrary: b rule: lookupSorter.induct)
  case (1 E i s innerType)
  have "list_all (\<lambda>e. \<not> container e \<and> \<not> err e \<and>
          lookupSorter E innerType (val e) (val e) = 0) (Iter E b)"
    using "1.prems" "1.IH" by (auto simp: list_all_iff)
  then show ?case by (simp add: compare_elems_refl)
next
  case (2 E i s)
  then show ?case
    by (cases i)
       (auto simp: bytes_Compare_refl three_way_refl three_way_float64_refl)
qed

lemma sortfn_loop_refl:
  assumes "sorters_ok E s"
    and "\<forall>f\<in>set fs. isNull (f r) \<or> decodable E (the (Type (f r))) (Bytes (f r))"
  shows "fst (sortfn_loop E nm fs s r r) = 0"
  using assms(2)
proof (induction fs)
  case Nil
  show ?case by simp
next
  case (Cons f fs)
  then have "isNull (f r) \<or> decodable E (the (Type (f r))) (Bytes (f r))"
    and rest: "\<forall>f\<in>set fs. isNull (f r) \<or> decodable E (the (Type (f r))) (Bytes (f r))"
    by simp_all
  then have "continues E f r r"
    by (auto simp: continues_def lookupSorter_refl)
  then show ?case
    using sortfn_loop_continues [OF assms(1), of f r r nm fs] Cons.IH [OF rest] by simp
qed


subsection \<open>The null policy\<close>




subsection \<open>Values of different types\<close>

text \<open>
  C4. When the two records have non-null values of different type IDs for the first
  field that distinguishes them, the comparator returns \<open>bytes.Compare\<close> of the string
  forms of the two types. Nothing is decoded: for a field at the head of the list the
  call returns that result and leaves the map of sorters as it was, whatever the map,
  the decoders and the payloads are. The result is a function of the two type strings.
\<close>

theorem NewSortFn_different_types:
  assumes "sorters_ok E s"
    and "\<forall>g\<in>set pre. continues E g ra rb"
    and "Type (f ra) = Some ta" and "Bytes (f ra) = Some ba"
    and "Type (f rb) = Some tb" and "Bytes (f rb) = Some bb"
    and "ID ta \<noteq> ID tb"
  shows "fst (NewSortFn E nullsMax (pre @ f # post) s ra rb) =
           bytes_Compare (string_bytes (String ta)) (string_bytes (String tb)) \<and>
         NewSortFn E nullsMax (f # post) s' ra rb =
           (bytes_Compare (string_bytes (String ta)) (string_bytes (String tb)), s')"
proof
  have nn: "\<not> isNull (f ra)" "\<not> isNull (f rb)"
    using assms(3-6) by (simp_all add: isNull_def)
  have "fst (sortfn_loop E nullsMax (pre @ f # post) s ra rb) =
        fst (sortfn_loop E nullsMax (f # post) s ra rb)"
    by (rule sortfn_loop_append [OF assms(1,2)])
  also have "\<dots> = bytes_Compare (string_bytes (String ta)) (string_bytes (String tb))"
    using nn assms(3,5,7) by (simp add: sortfn_loop_Cons [OF assms(1)])
  finally show "fst (NewSortFn E nullsMax (pre @ f # post) s ra rb) =
           bytes_Compare (string_bytes (String ta)) (string_bytes (String tb))"
    by (simp add: NewSortFn_def)
  show "NewSortFn E nullsMax (f # post) s' ra rb =
           (bytes_Compare (string_bytes (String ta)) (string_bytes (String tb)), s')"
    using nn assms(3,5,7) by (simp add: NewSortFn_def sortfn_loop_step)
qed

theorem NewSortFn_different_types_witness:
  "fst (NewSortFn zng_spec True ([column 0] @ column 1 # []) Map.empty ex_ii ex_is) = - 1 \<and>
   fst (NewSortFn zng_spec True ([column 0] @ column 1 # []) Map.empty ex_is ex_ii) = 1 \<and>
   bytes_Compare (string_bytes ''ip'') (string_bytes ''string'') = - 1"
proof -
  have ok: "sorters_ok zng_spec Map.empty"
    by (rule sorters_ok_empty)
  have pre: "\<forall>g\<in>set [column 0]. continues zng_spec g ex_ii ex_is"
    "\<forall>g\<in>set [column 0]. continues zng_spec g ex_is ex_ii"
    by code_simp+
  have vals: "Type (column 1 ex_ii) = Some TypeIP" "Bytes (column 1 ex_ii) = Some [10, 0, 0, 1]"
    "Type (column 1 ex_is) = Some TypeString" "Bytes (column 1 ex_is) = Some [104, 105]"
    by code_simp+
  have ids: "ID TypeIP \<noteq> ID TypeString" "ID TypeString \<noteq> ID TypeIP"
    by code_simp+
  have strs: "String TypeIP = ''ip''" "String TypeString = ''string''"
    by code_simp+
  have c: "bytes_Compare (string_bytes ''ip'') (string_bytes ''string'') = - 1"
    "bytes_Compare (string_bytes ''string'') (string_bytes ''ip'') = 1"
    by code_simp+
  show ?thesis
    using NewSortFn_different_types [OF ok pre(1) vals(1,2,3,4) ids(1), of True "[]"]
          NewSortFn_different_types [OF ok pre(2) vals(3,4,1,2) ids(2), of True "[]"]
          c strs
    by simp
qed

subsection \<open>IP addresses\<close>

lemma To16_v4: "length ip4 = 4 \<Longrightarrow> To16 (Some (v4InV6Prefix @ ip4)) = To16 (Some ip4)"
  by (simp add: To16_def v4InV6Prefix_def)

text \<open>
  C5. For two non-null values of the IP type that both decode, at the first field that
  distinguishes the records, the comparator returns \<open>bytes.Compare\<close> of the two
  addresses in their 16-byte form (and goes on to the later fields when that is 0). An
  IPv4 address in its 4-byte form and the same address in its 16-byte IPv4-in-IPv6 form
  compare equal.
\<close>

theorem NewSortFn_IP:
  assumes "sorters_ok E s"
    and "\<forall>g\<in>set pre. continues E g ra rb"
    and "Type (f ra) = Some ta" and "Bytes (f ra) = Some ba"
    and "Type (f rb) = Some tb" and "Bytes (f rb) = Some bb"
    and "ID ta = IdIP" and "ID tb = IdIP" and "InnerType ta = None"
    and "DecodeIP E (Some ba) = Some ipa" and "DecodeIP E (Some bb) = Some ipb"
  shows "fst (NewSortFn E nullsMax (pre @ f # post) s ra rb) =
           (if bytes_Compare (To16 ipa) (To16 ipb) \<noteq> 0
            then bytes_Compare (To16 ipa) (To16 ipb)
            else fst (NewSortFn E nullsMax post s ra rb)) \<and>
         (\<forall>ip4. length ip4 = 4 \<and>
            (ipa = Some ip4 \<and> ipb = Some (v4InV6Prefix @ ip4) \<or>
             ipa = Some (v4InV6Prefix @ ip4) \<and> ipb = Some ip4) \<longrightarrow>
            bytes_Compare (To16 ipa) (To16 ipb) = 0 \<and>
            fst (NewSortFn E nullsMax (pre @ [f]) s ra rb) = 0)"
proof -
  have nn: "\<not> isNull (f ra)" "\<not> isNull (f rb)"
    using assms(3-6) by (simp_all add: isNull_def)
  obtain str where ta: "ta = MkType IdIP str None"
    using assms(7,9) by (cases ta) simp
  have sorter: "lookupSorter E ta (Some ba) (Some bb) = bytes_Compare (To16 ipa) (To16 ipb)"
    using assms(10,11) by (simp add: ta)
  have gen: "fst (NewSortFn E nullsMax (pre @ f # post') s ra rb) =
           (if bytes_Compare (To16 ipa) (To16 ipb) \<noteq> 0
            then bytes_Compare (To16 ipa) (To16 ipb)
            else fst (NewSortFn E nullsMax post' s ra rb))" for post'
  proof -
    have "fst (sortfn_loop E nullsMax (pre @ f # post') s ra rb) =
          fst (sortfn_loop E nullsMax (f # post') s ra rb)"
      by (rule sortfn_loop_append [OF assms(1,2)])
    also have "\<dots> = (if bytes_Compare (To16 ipa) (To16 ipb) \<noteq> 0
            then bytes_Compare (To16 ipa) (To16 ipb)
            else fst (sortfn_loop E nullsMax post' s ra rb))"
      using nn assms(3-8) sorter
      by (simp add: sortfn_loop_Cons [OF assms(1)] del: sortfn_loop.simps)
    finally show ?thesis by (simp add: NewSortFn_def)
  qed
  have v4: "bytes_Compare (To16 ipa) (To16 ipb) = 0 \<and>
            fst (NewSortFn E nullsMax (pre @ [f]) s ra rb) = 0"
    if "length ip4 = 4 \<and>
        (ipa = Some ip4 \<and> ipb = Some (v4InV6Prefix @ ip4) \<or>
         ipa = Some (v4InV6Prefix @ ip4) \<and> ipb = Some ip4)" for ip4
  proof -
    have "To16 ipa = To16 ipb"
      using that by (auto simp: To16_v4)
    then have z: "bytes_Compare (To16 ipa) (To16 ipb) = 0"
      by (simp add: bytes_Compare_refl)
    then show ?thesis using gen [of "[]"] by (simp add: NewSortFn_def)
  qed
  show ?thesis using gen [of post] v4 by blast
qed

theorem NewSortFn_IP_witness:
  "fst (NewSortFn zng_spec True ([column 0] @ [column 1]) Map.empty
         [ex_ip, ex_ip] [ex_ip, ex_ip16]) = 0 \<and>
   fst (NewSortFn zng_spec True ([column 0] @ column 1 # []) Map.empty
         [ex_ip, ex_ip16] [ex_ip, ex_ip2]) = - 1"
proof -
  have ok: "sorters_ok zng_spec Map.empty"
    by (rule sorters_ok_empty)
  have pre: "\<forall>g\<in>set [column 0]. continues zng_spec g [ex_ip, ex_ip] [ex_ip, ex_ip16]"
    "\<forall>g\<in>set [column 0]. continues zng_spec g [ex_ip, ex_ip16] [ex_ip, ex_ip2]"
    by code_simp+
  have vals: "Type (column 1 [ex_ip, ex_ip]) = Some TypeIP"
    "Bytes (column 1 [ex_ip, ex_ip]) = Some [10, 0, 0, 1]"
    "Type (column 1 [ex_ip, ex_ip16]) = Some TypeIP"
    "Bytes (column 1 [ex_ip, ex_ip16]) =
       Some [0, 0, 0, 0, 0, 0, 0, 0, 0, 0, 255, 255, 10, 0, 0, 1]"
    "Type (column 1 [ex_ip, ex_ip2]) = Some TypeIP"
    "Bytes (column 1 [ex_ip, ex_ip2]) = Some [10, 0, 0, 2]"
    by code_simp+
  have ty: "ID TypeIP = IdIP" "InnerType TypeIP = None"
    by code_simp+
  have dec: "DecodeIP zng_spec (Some [10, 0, 0, 1]) = Some (Some [10, 0, 0, 1])"
    "DecodeIP zng_spec (Some [0, 0, 0, 0, 0, 0, 0, 0, 0, 0, 255, 255, 10, 0, 0, 1]) =
       Some (Some (v4InV6Prefix @ [10, 0, 0, 1]))"
    "DecodeIP zng_spec (Some [10, 0, 0, 2]) = Some (Some [10, 0, 0, 2])"
    by code_simp+
  have c: "bytes_Compare (To16 (Some (v4InV6Prefix @ [10, 0, 0, 1])))
             (To16 (Some [10, 0, 0, 2])) = - 1"
    by code_simp
  have post: "fst (NewSortFn zng_spec True [] Map.empty [ex_ip, ex_ip16] [ex_ip, ex_ip2]) = 0"
    by code_simp
  have "fst (NewSortFn zng_spec True ([column 0] @ [column 1]) Map.empty
         [ex_ip, ex_ip] [ex_ip, ex_ip16]) = 0"
    using NewSortFn_IP [OF ok pre(1) vals(1,2,3,4) ty(1) ty(1) ty(2) dec(1,2),
        of True "[]", THEN conjunct2, rule_format, of "[10, 0, 0, 1]"]
    by simp
  moreover have "fst (NewSortFn zng_spec True ([column 0] @ column 1 # []) Map.empty
         [ex_ip, ex_ip16] [ex_ip, ex_ip2]) = - 1"
    using NewSortFn_IP [OF ok pre(2) vals(3,4,5,6) ty(1) ty(1) ty(2) dec(2,3),
        of True "[]", THEN conjunct1] c
    by simp
  ultimately show ?thesis by simp
qed

subsection \<open>Comparing a record with itself\<close>

lemma compare_elems_malformed:
  assumes "\<And>e. e \<in> set es \<Longrightarrow> \<not> container e \<Longrightarrow> \<not> err e \<Longrightarrow>
             cmp (val e) (val e) = (if good (val e) then 0 else - 1)"
    and "\<not> list_all (\<lambda>e. \<not> container e \<and> \<not> err e \<and> good (val e)) es"
  shows "compare_elems cmp es es = - 1"
  using assms
proof (induction es)
  case Nil
  then show ?case by simp
next
  case (Cons e es)
  show ?case
  proof (cases "\<not> container e \<and> \<not> err e \<and> good (val e)")
    case True
    then have "cmp (val e) (val e) = 0"
      using Cons.prems(1) [of e] by simp
    moreover have "compare_elems cmp es es = - 1"
      using Cons.IH Cons.prems True by simp
    ultimately show ?thesis using True by simp
  next
    case False
    then show ?thesis using Cons.prems(1) [of e] by auto
  qed
qed

lemma lookupSorter_self:
  "lookupSorter E t b b = (if decodable E t b then 0 else - 1)"
proof (induction E t arbitrary: b rule: lookupSorter.induct)
  case (1 E i s innerType)
  show ?case
  proof (cases "decodable E (MkType i s (Some innerType)) b")
    case True
    then show ?thesis by (simp only: lookupSorter_refl if_True)
  next
    case False
    then have bad: "\<not> list_all (\<lambda>e. \<not> container e \<and> \<not> err e \<and>
        decodable E innerType (val e)) (Iter E b)"
      by simp
    have "compare_elems (lookupSorter E innerType) (Iter E b) (Iter E b) = - 1"
      by (rule compare_elems_malformed [where good = "decodable E innerType", OF _ bad])
         (simp add: "1.IH")
    then show ?thesis using False by simp
  qed
next
  case (2 E i s)
  show ?case
  proof (cases "decodable E (MkType i s None) b")
    case True
    then show ?thesis by (simp only: lookupSorter_refl if_True)
  next
    case False
    then show ?thesis by (cases i) auto
  qed
qed

text \<open>
  C8, as amended: comparing a record with itself returns 0 when each of its sort keys
  is null or has a payload that is well-formed for its type, for any fields and either
  \<open>nullsMax\<close>; and it returns -1 when some sort key of the record is non-null with a
  malformed payload (the first such key is \<open>f\<close>, the keys before it are \<open>pre\<close>).
\<close>

theorem NewSortFn_reflexive:
  assumes "sorters_ok E s"
  shows "((\<forall>f\<in>set fs. isNull (f r) \<or> decodable E (the (Type (f r))) (Bytes (f r))) \<longrightarrow>
            fst (NewSortFn E nullsMax fs s r r) = 0) \<and>
         ((\<forall>g\<in>set pre. isNull (g r) \<or> decodable E (the (Type (g r))) (Bytes (g r))) \<and>
          \<not> isNull (f r) \<and> \<not> decodable E (the (Type (f r))) (Bytes (f r)) \<longrightarrow>
            fst (NewSortFn E nullsMax (pre @ f # post) s r r) = - 1)"
proof (intro conjI impI)
  assume "\<forall>f\<in>set fs. isNull (f r) \<or> decodable E (the (Type (f r))) (Bytes (f r))"
  then show "fst (NewSortFn E nullsMax fs s r r) = 0"
    using sortfn_loop_refl [OF assms] by (simp add: NewSortFn_def)
next
  assume h: "(\<forall>g\<in>set pre. isNull (g r) \<or> decodable E (the (Type (g r))) (Bytes (g r))) \<and>
          \<not> isNull (f r) \<and> \<not> decodable E (the (Type (f r))) (Bytes (f r))"
  then have pre: "\<forall>g\<in>set pre. continues E g r r"
    by (auto simp: continues_def lookupSorter_refl)
  have "fst (sortfn_loop E nullsMax (pre @ f # post) s r r) =
        fst (sortfn_loop E nullsMax (f # post) s r r)"
    by (rule sortfn_loop_append [OF assms pre])
  also have "\<dots> = - 1"
    using h by (simp add: sortfn_loop_Cons [OF assms] lookupSorter_self del: sortfn_loop.simps)
  finally show "fst (NewSortFn E nullsMax (pre @ f # post) s r r) = - 1"
    by (simp add: NewSortFn_def)
qed

theorem NewSortFn_reflexive_witness:
  "fst (NewSortFn zng_spec True [column 0, column 1] Map.empty ex_in ex_in) = 0 \<and>
   fst (NewSortFn zng_spec False [column 0, column 1] Map.empty ex_is ex_is) = 0 \<and>
   fst (NewSortFn zng_spec True ([column 0] @ column 1 # []) Map.empty
          [ex_ip, ex_ip3] [ex_ip, ex_ip3]) = - 1"
proof -
  have ok: "sorters_ok zng_spec Map.empty"
    by (rule sorters_ok_empty)
  have wf: "\<forall>f\<in>set [column 0, column 1].
      isNull (f ex_in) \<or> decodable zng_spec (the (Type (f ex_in))) (Bytes (f ex_in))"
    "\<forall>f\<in>set [column 0, column 1].
      isNull (f ex_is) \<or> decodable zng_spec (the (Type (f ex_is))) (Bytes (f ex_is))"
    by code_simp+
  have bad: "(\<forall>g\<in>set [column 0]. isNull (g [ex_ip, ex_ip3]) \<or>
        decodable zng_spec (the (Type (g [ex_ip, ex_ip3]))) (Bytes (g [ex_ip, ex_ip3]))) \<and>
      \<not> isNull (column 1 [ex_ip, ex_ip3]) \<and>
      \<not> decodable zng_spec (the (Type (column 1 [ex_ip, ex_ip3])))
          (Bytes (column 1 [ex_ip, ex_ip3]))"
    by code_simp
  show ?thesis
    using NewSortFn_reflexive [OF ok, of "[column 0, column 1]" ex_in True "[]" "column 0" "[]",
            THEN conjunct1]
          NewSortFn_reflexive [OF ok, of "[column 0, column 1]" ex_is False "[]" "column 0" "[]",
            THEN conjunct1]
          NewSortFn_reflexive [OF ok, of "[]" "[ex_ip, ex_ip3]" True "[column 0]" "column 1" "[]",
            THEN conjunct2]
          wf bad
    by simp
qed

text \<open>
  C8 as stated fails on a malformed payload: the decoder fails on the first argument
  and the sorter returns -1 before it looks at the second, so a record with a 3-byte
  IP address compares less than itself.
\<close>

theorem NewSortFn_irreflexive_malformed:
  "DecodeIP zng_spec (Bytes ex_ip3) = None \<and>
   fst (NewSortFn zng_spec True [column 0] Map.empty [ex_ip3] [ex_ip3]) = - 1 \<and>
   fst (NewSortFn zng_spec False [column 0] Map.empty [ex_ip3] [ex_ip3]) = - 1"
  by code_simp

subsection \<open>Malformed payloads\<close>

text \<open>
  C2, as amended: at the first field that distinguishes the records, for two non-null
  values of one primitive type, the comparator returns -1 when the payload of the first
  record does not decode, and 1 when the first decodes and the second does not,
  whatever \<open>nullsMax\<close> is. The record with the malformed value is ordered before the
  other one; that is where a null is ordered when \<open>nullsMax\<close> is false.
\<close>

theorem NewSortFn_malformed:
  assumes "sorters_ok E s"
    and "\<forall>g\<in>set pre. continues E g ra rb"
    and "Type (f ra) = Some ta" and "Bytes (f ra) = Some ba"
    and "Type (f rb) = Some tb" and "Bytes (f rb) = Some bb"
    and "ID ta = ID tb" and "InnerType ta = None"
  shows "(\<not> decodable E ta (Some ba) \<longrightarrow>
            fst (NewSortFn E nullsMax (pre @ f # post) s ra rb) = - 1) \<and>
         (decodable E ta (Some ba) \<and> \<not> decodable E ta (Some bb) \<longrightarrow>
            fst (NewSortFn E nullsMax (pre @ f # post) s ra rb) = 1)"
proof -
  have nn: "\<not> isNull (f ra)" "\<not> isNull (f rb)"
    using assms(3-6) by (simp_all add: isNull_def)
  obtain i str where ta: "ta = MkType i str None"
    using assms(8) by (cases ta) simp
  have a: "lookupSorter E ta (Some ba) (Some bb) = - 1" if "\<not> decodable E ta (Some ba)"
    using that unfolding ta by (cases i) simp_all
  have b: "lookupSorter E ta (Some ba) (Some bb) = 1"
    if "decodable E ta (Some ba)" "\<not> decodable E ta (Some bb)"
    using that unfolding ta by (cases i) auto
  have "fst (sortfn_loop E nullsMax (pre @ f # post) s ra rb) =
        fst (sortfn_loop E nullsMax (f # post) s ra rb)"
    by (rule sortfn_loop_append [OF assms(1,2)])
  also have "\<dots> =
      (if lookupSorter E ta (Some ba) (Some bb) \<noteq> 0 then lookupSorter E ta (Some ba) (Some bb)
       else fst (sortfn_loop E nullsMax post s ra rb))"
    using nn assms(3-7) by (simp add: sortfn_loop_Cons [OF assms(1)] del: sortfn_loop.simps)
  finally show ?thesis using a b by (simp add: NewSortFn_def)
qed

theorem NewSortFn_malformed_witness:
  "fst (NewSortFn zng_spec True ([] @ column 0 # []) Map.empty [ex_ip3] [ex_ip]) = - 1 \<and>
   fst (NewSortFn zng_spec False ([] @ column 0 # []) Map.empty [ex_ip3] [ex_ip]) = - 1 \<and>
   fst (NewSortFn zng_spec True ([] @ column 0 # []) Map.empty [ex_ip] [ex_ip3]) = 1 \<and>
   fst (NewSortFn zng_spec False ([] @ column 0 # []) Map.empty [ex_ip] [ex_ip3]) = 1"
proof -
  have ok: "sorters_ok zng_spec Map.empty"
    by (rule sorters_ok_empty)
  have pre: "\<forall>g\<in>set []. continues zng_spec g [ex_ip3] [ex_ip]"
    "\<forall>g\<in>set []. continues zng_spec g [ex_ip] [ex_ip3]"
    by simp_all
  have vals: "Type (column 0 [ex_ip3]) = Some TypeIP" "Bytes (column 0 [ex_ip3]) = Some [10, 0, 0]"
    "Type (column 0 [ex_ip]) = Some TypeIP" "Bytes (column 0 [ex_ip]) = Some [10, 0, 0, 1]"
    by code_simp+
  have ty: "ID TypeIP = ID TypeIP" "InnerType TypeIP = None"
    by code_simp+
  have dec: "\<not> decodable zng_spec TypeIP (Some [10, 0, 0])"
    "decodable zng_spec TypeIP (Some [10, 0, 0, 1])"
    by code_simp+
  show ?thesis
    using NewSortFn_malformed [OF ok pre(1) vals(1,2,3,4) ty, of True "[]"]
          NewSortFn_malformed [OF ok pre(1) vals(1,2,3,4) ty, of False "[]"]
          NewSortFn_malformed [OF ok pre(2) vals(3,4,1,2) ty, of True "[]"]
          NewSortFn_malformed [OF ok pre(2) vals(3,4,1,2) ty, of False "[]"]
          dec
    by simp
qed

text \<open>
  C2 as stated fails when \<open>nullsMax\<close> is true: the record with the malformed value
  compares less than the other record, and a record with a null value compares greater.
\<close>

theorem NewSortFn_malformed_not_null:
  "DecodeIP zng_spec (Bytes ex_ip3) = None \<and>
   fst (NewSortFn zng_spec True [column 0] Map.empty [ex_ip3] [ex_ip]) = - 1 \<and>
   fst (NewSortFn zng_spec True [column 0] Map.empty [null_value] [ex_ip]) = 1 \<and>
   fst (NewSortFn zng_spec True [column 0] Map.empty [ex_ip] [ex_ip3]) = 1 \<and>
   fst (NewSortFn zng_spec True [column 0] Map.empty [ex_ip] [null_value]) = - 1"
  by code_simp

section \<open>Properties of the log ingest\<close>

lemma ingestLogs_loop_step:
  "ingestLogs_loop X req (path # paths) readers pipe =
     (case outcome X req path of
        OpenFailed e \<Rightarrow>
          if StopErr req then (Some e, readers, pipe)
          else ingestLogs_loop X req paths readers (pipe @ [warning path e])
      | ConfigFailed e \<Rightarrow> (Some e, readers, pipe)
      | Usable r \<Rightarrow> ingestLogs_loop X req paths (readers @ [r]) pipe)"
  by (auto simp: outcome_def split: sum.splits option.splits)

lemma ingestLogs_loop_continue:
  assumes "\<not> StopErr req" and "\<forall>p\<in>set paths. \<not> is_config_failed (outcome X req p)"
  shows "ingestLogs_loop X req (paths @ rest) readers pipe =
         ingestLogs_loop X req rest (readers @ usable_readers X req paths)
           (pipe @ open_warnings X req paths)"
  using assms(2)
proof (induction paths arbitrary: readers pipe)
  case Nil
  show ?case by (simp add: usable_readers_def open_warnings_def map_filter_simps)
next
  case (Cons p paths)
  then have p: "\<not> is_config_failed (outcome X req p)"
    and rest: "\<forall>p\<in>set paths. \<not> is_config_failed (outcome X req p)"
    by simp_all
  show ?case
  proof (cases "outcome X req p")
    case (OpenFailed e)
    then show ?thesis
      using assms(1) Cons.IH [OF rest]
      by (simp add: ingestLogs_loop_step usable_readers_def open_warnings_def map_filter_simps
            del: ingestLogs_loop.simps)
  next
    case (ConfigFailed e)
    then show ?thesis using p by (simp add: is_config_failed_def)
  next
    case (Usable r)
    then show ?thesis
      using Cons.IH [OF rest]
      by (simp add: ingestLogs_loop_step usable_readers_def open_warnings_def map_filter_simps
            del: ingestLogs_loop.simps)
  qed
qed

lemma ingestLogs_loop_usable:
  assumes "\<forall>p\<in>set paths. is_usable (outcome X req p)"
  shows "ingestLogs_loop X req (paths @ rest) readers pipe =
         ingestLogs_loop X req rest (readers @ usable_readers X req paths) pipe"
  using assms
proof (induction paths arbitrary: readers)
  case Nil
  show ?case by (simp add: usable_readers_def map_filter_simps)
next
  case (Cons p paths)
  then obtain r where p: "outcome X req p = Usable r"
    by (cases "outcome X req p") (simp_all add: is_usable_def)
  from Cons have rest: "\<forall>p\<in>set paths. is_usable (outcome X req p)"
    by simp
  show ?case
    using p Cons.IH [OF rest]
    by (simp add: ingestLogs_loop_step usable_readers_def map_filter_simps
          del: ingestLogs_loop.simps)
qed


lemma open_warnings_usable:
  "\<forall>p\<in>set paths. is_usable (outcome X req p) \<Longrightarrow> open_warnings X req paths = []"
proof (induction paths)
  case Nil
  show ?case by (simp add: open_warnings_def map_filter_simps)
next
  case (Cons p paths)
  then obtain r where "outcome X req p = Usable r"
    by (cases "outcome X req p") (simp_all add: is_usable_def)
  then show ?case using Cons by (simp add: open_warnings_def map_filter_simps)
qed

lemma run_query_Plain_aux:
  "q = map Plain rs \<Longrightarrow>
   (fst (run_query q) = None \<longleftrightarrow> (\<forall>r\<in>set rs. first_error r = None)) \<and>
   (\<forall>x. fst (run_query q) = Some x \<longrightarrow> (\<exists>r\<in>set rs. first_error r = Some x)) \<and>
   snd (snd (run_query q)) = [] \<and>
   mset (fst (snd (run_query q))) \<subseteq># mset (concat (map records_before_error rs))"
proof (induction q arbitrary: rs rule: run_query.induct)
  case 1
  then show ?case by simp
next
  case (2 q)
  then obtain rs' where rs: "rs = [] # rs'" "q = map Plain rs'" by (cases rs) auto
  show ?case using 2(1) [OF rs(2)] rs by simp
next
  case (3 x r q)
  then obtain rs' where rs: "rs = (Record x # r) # rs'" "q = map Plain rs'" by (cases rs) auto
  let ?t = "run_query (q @ [Plain r])"
  have "q @ [Plain r] = map Plain (rs' @ [r])" using rs by simp
  note IH = 3(1) [OF this]
  have run: "run_query (Plain (Record x # r) # q) = (fst ?t, x # fst (snd ?t), snd (snd ?t))"
    by (simp add: split_beta)
  have a: "(fst ?t = None) = (\<forall>r\<in>set rs. first_error r = None)"
    using IH rs by auto
  have b: "\<forall>y. fst ?t = Some y \<longrightarrow> (\<exists>r\<in>set rs. first_error r = Some y)"
    using IH rs by auto
  have c: "snd (snd ?t) = []" using IH by simp
  have "mset (fst (snd ?t)) \<subseteq># mset (concat (map records_before_error (rs' @ [r])))"
    using IH by simp
  then have d: "mset (x # fst (snd ?t)) \<subseteq># mset (concat (map records_before_error rs))"
    using rs by (simp add: ac_simps)
  show ?case unfolding run using a b c d by simp
next
  case (4 e r q)
  then obtain rs' where rs: "rs = (ReadError e # r) # rs'" "q = map Plain rs'" by (cases rs) auto
  show ?case using rs by auto
next
  case (5 q)
  then show ?case by (cases rs) auto
next
  case (6 x r q)
  then show ?case by (cases rs) auto
next
  case (7 e r q)
  then show ?case by (cases rs) auto
qed

lemma run_query_WarningReader_aux:
  "q = map WarningReader rs \<Longrightarrow>
   fst (run_query q) = None \<and>
   mset (snd (snd (run_query q))) = mset (List.map_filter first_error rs) \<and>
   mset (fst (snd (run_query q))) = mset (concat (map records_before_error rs))"
proof (induction q arbitrary: rs rule: run_query.induct)
  case 1
  then show ?case by simp
next
  case (5 q)
  then obtain rs' where rs: "rs = [] # rs'" "q = map WarningReader rs'" by (cases rs) auto
  show ?case using 5(1) [OF rs(2)] rs by simp
next
  case (6 x r q)
  then obtain rs' where rs: "rs = (Record x # r) # rs'" "q = map WarningReader rs'" by (cases rs) auto
  let ?t = "run_query (q @ [WarningReader r])"
  have "q @ [WarningReader r] = map WarningReader (rs' @ [r])" using rs by simp
  note IH = 6(1) [OF this]
  have run: "run_query (WarningReader (Record x # r) # q) = (fst ?t, x # fst (snd ?t), snd (snd ?t))"
    by (simp add: split_beta)
  have mf: "mset (List.map_filter first_error (rs' @ [r])) = mset (List.map_filter first_error rs)"
    using rs by (simp add: map_filter_def)
  have mr: "mset (x # concat (map records_before_error (rs' @ [r]))) =
      mset (concat (map records_before_error rs))"
    using rs by simp
  show ?case unfolding run using IH mf mr by simp
next
  case (7 e r q)
  then obtain rs' where rs: "rs = (ReadError e # r) # rs'" "q = map WarningReader rs'" by (cases rs) auto
  show ?case using 7(1) [OF rs(2)] rs by (auto simp: split_beta)
next
  case (2 q)
  then show ?case by (cases rs) auto
next
  case (3 x r q)
  then show ?case by (cases rs) auto
next
  case (4 e r q)
  then show ?case by (cases rs) auto
qed

lemma ingestLogs_fails:
  assumes "ingestLogs_loop X req (Paths req) [] [] = (Some e, readers, pipe)"
  shows "ingestLogs X req prog =
    \<lparr>error = Some e, pipe_warnings = pipe, channel_warnings = [], pulled = []\<rparr>"
  using assms by (simp add: ingestLogs_def)

lemma ingestLogs_runs:
  assumes "ingestLogs_loop X req (Paths req) [] [] = (None, readers, pipe)"
    and "CreateFile X = None" and "ParseProc X prog = None"
  shows "ingestLogs X req prog =
    \<lparr>error = fst (run_query (map (if StopErr req then Plain else WarningReader)
                (map (Reads X) readers))),
     pipe_warnings = pipe,
     channel_warnings = snd (snd (run_query (map (if StopErr req then Plain else WarningReader)
                (map (Reads X) readers)))),
     pulled = fst (snd (run_query (map (if StopErr req then Plain else WarningReader)
                (map (Reads X) readers))))\<rparr>"
  using assms
  by (simp add: ingestLogs_def compileLogIngest_def reader_results_def split_beta comp_def)

lemma map_filter_map: "List.map_filter f (map g xs) = List.map_filter (\<lambda>x. f (g x)) xs"
  by (induction xs) (simp_all split: option.splits)

text \<open>
  C6, as amended. Let \<open>s.CreateFile\<close> and \<open>zql.ParseProc\<close> succeed (their errors are
  returned in both modes and are not reader errors). With stop-on-error, the first
  path that fails to open makes \<open>ingestLogs\<close> return that error; when all paths give a
  reader, the ingest fails exactly when some reader has a read error, the error it
  returns is then the first error of one of the readers, no record that follows an
  error in its reader has been pulled, and no warning is sent. Without stop-on-error,
  as long as no JSON type configuration fails, the ingest returns no error: every path
  that fails to open puts one warning \<open>path: error\<close> on the pipe and is dropped, every
  reader that fails on a read puts one warning (its first error) on the side channel
  and is dropped, and the query pulls every record the readers give before their
  first error. The exception, in both modes: a reader whose JSON type configuration
  fails makes \<open>ingestLogs\<close> return that error; no warning is sent for it and the
  remaining paths are not opened.
\<close>

theorem ingestLogs_reader_errors:
  assumes "CreateFile X = None" and "ParseProc X prog = None"
  shows
  "(StopErr req \<and> Paths req = ok @ path # rest \<and>
      (\<forall>p\<in>set ok. is_usable (outcome X req p)) \<and> outcome X req path = OpenFailed e \<longrightarrow>
        ingestLogs X req prog =
          \<lparr>error = Some e, pipe_warnings = [], channel_warnings = [], pulled = []\<rparr>) \<and>
   (StopErr req \<and> (\<forall>p\<in>set (Paths req). is_usable (outcome X req p)) \<longrightarrow>
        (error (ingestLogs X req prog) = None \<longleftrightarrow>
           (\<forall>r\<in>set (usable_readers X req (Paths req)). first_error (Reads X r) = None)) \<and>
        (\<forall>e'. error (ingestLogs X req prog) = Some e' \<longrightarrow>
           (\<exists>r\<in>set (usable_readers X req (Paths req)). first_error (Reads X r) = Some e')) \<and>
        mset (pulled (ingestLogs X req prog)) \<subseteq>#
          mset (concat (map (\<lambda>r. records_before_error (Reads X r))
                  (usable_readers X req (Paths req)))) \<and>
        pipe_warnings (ingestLogs X req prog) = [] \<and>
        channel_warnings (ingestLogs X req prog) = []) \<and>
   (\<not> StopErr req \<and> (\<forall>p\<in>set (Paths req). \<not> is_config_failed (outcome X req p)) \<longrightarrow>
        error (ingestLogs X req prog) = None \<and>
        pipe_warnings (ingestLogs X req prog) = open_warnings X req (Paths req) \<and>
        mset (channel_warnings (ingestLogs X req prog)) =
          mset (List.map_filter (\<lambda>r. first_error (Reads X r))
                  (usable_readers X req (Paths req))) \<and>
        mset (pulled (ingestLogs X req prog)) =
          mset (concat (map (\<lambda>r. records_before_error (Reads X r))
                  (usable_readers X req (Paths req))))) \<and>
   (Paths req = ok @ path # rest \<and>
      (\<forall>p\<in>set ok. if StopErr req then is_usable (outcome X req p)
                     else \<not> is_config_failed (outcome X req p)) \<and>
      outcome X req path = ConfigFailed e \<longrightarrow>
        ingestLogs X req prog =
          \<lparr>error = Some e, pipe_warnings = open_warnings X req ok, channel_warnings = [],
           pulled = []\<rparr>)"
proof (intro conjI impI)
  assume h: "StopErr req \<and> Paths req = ok @ path # rest \<and>
      (\<forall>p\<in>set ok. is_usable (outcome X req p)) \<and> outcome X req path = OpenFailed e"
  then have "ingestLogs_loop X req (ok @ path # rest) [] [] =
      ingestLogs_loop X req (path # rest) ([] @ usable_readers X req ok) []"
    using ingestLogs_loop_usable [of ok X req "path # rest" "[]" "[]"] by blast
  also have "\<dots> = (Some e, usable_readers X req ok, [])"
    using h by (simp add: ingestLogs_loop_step del: ingestLogs_loop.simps)
  finally have "ingestLogs_loop X req (Paths req) [] [] = (Some e, usable_readers X req ok, [])"
    using h by simp
  then show "ingestLogs X req prog =
      \<lparr>error = Some e, pipe_warnings = [], channel_warnings = [], pulled = []\<rparr>"
    by (rule ingestLogs_fails)
next
  assume h: "StopErr req \<and> (\<forall>p\<in>set (Paths req). is_usable (outcome X req p))"
  let ?rs = "usable_readers X req (Paths req)"
  let ?t = "run_query (map Plain (map (Reads X) ?rs))"
  from h have u: "\<forall>p\<in>set (Paths req). is_usable (outcome X req p)" by simp
  have "ingestLogs_loop X req (Paths req @ []) [] [] =
      ingestLogs_loop X req [] ([] @ ?rs) []"
    by (rule ingestLogs_loop_usable [OF u])
  then have "ingestLogs_loop X req (Paths req) [] [] = (None, ?rs, [])"
    by simp
  from ingestLogs_runs [OF this assms]
  have run: "ingestLogs X req prog =
      \<lparr>error = fst ?t, pipe_warnings = [], channel_warnings = snd (snd ?t),
       pulled = fst (snd ?t)\<rparr>"
    using h by simp
  note aux = run_query_Plain_aux [OF refl, of "map (Reads X) ?rs"]
  show "(error (ingestLogs X req prog) = None) =
      (\<forall>r\<in>set ?rs. first_error (Reads X r) = None)"
    using aux by (simp add: run)
  show "\<forall>e'. error (ingestLogs X req prog) = Some e' \<longrightarrow>
      (\<exists>r\<in>set ?rs. first_error (Reads X r) = Some e')"
    using aux by (simp add: run)
  show "mset (pulled (ingestLogs X req prog)) \<subseteq>#
      mset (concat (map (\<lambda>r. records_before_error (Reads X r)) ?rs))"
    using aux by (simp add: run comp_def)
  show "pipe_warnings (ingestLogs X req prog) = []"
    by (simp add: run)
  show "channel_warnings (ingestLogs X req prog) = []"
    using aux by (simp add: run)
next
  assume h: "\<not> StopErr req \<and> (\<forall>p\<in>set (Paths req). \<not> is_config_failed (outcome X req p))"
  let ?rs = "usable_readers X req (Paths req)"
  let ?t = "run_query (map WarningReader (map (Reads X) ?rs))"
  from h have s: "\<not> StopErr req"
    and u: "\<forall>p\<in>set (Paths req). \<not> is_config_failed (outcome X req p)" by simp_all
  have "ingestLogs_loop X req (Paths req @ []) [] [] =
      ingestLogs_loop X req [] ([] @ ?rs) ([] @ open_warnings X req (Paths req))"
    by (rule ingestLogs_loop_continue [OF s u])
  then have "ingestLogs_loop X req (Paths req) [] [] =
      (None, ?rs, open_warnings X req (Paths req))"
    by simp
  from ingestLogs_runs [OF this assms]
  have run: "ingestLogs X req prog =
      \<lparr>error = fst ?t, pipe_warnings = open_warnings X req (Paths req),
       channel_warnings = snd (snd ?t), pulled = fst (snd ?t)\<rparr>"
    using s by simp
  note aux = run_query_WarningReader_aux [OF refl, of "map (Reads X) ?rs"]
  show "error (ingestLogs X req prog) = None"
    using aux by (simp add: run)
  show "pipe_warnings (ingestLogs X req prog) = open_warnings X req (Paths req)"
    by (simp add: run)
  show "mset (channel_warnings (ingestLogs X req prog)) =
      mset (List.map_filter (\<lambda>r. first_error (Reads X r)) ?rs)"
    using aux by (simp add: run map_filter_map)
  show "mset (pulled (ingestLogs X req prog)) =
      mset (concat (map (\<lambda>r. records_before_error (Reads X r)) ?rs))"
    using aux by (simp add: run comp_def)
next
  assume h: "Paths req = ok @ path # rest \<and>
      (\<forall>p\<in>set ok. if StopErr req then is_usable (outcome X req p)
                     else \<not> is_config_failed (outcome X req p)) \<and>
      outcome X req path = ConfigFailed e"
  have "ingestLogs_loop X req (ok @ path # rest) [] [] =
      ingestLogs_loop X req (path # rest) ([] @ usable_readers X req ok)
        ([] @ open_warnings X req ok)"
  proof (cases "StopErr req")
    case True
    then have u: "\<forall>p\<in>set ok. is_usable (outcome X req p)"
      using h by simp
    show ?thesis
      using ingestLogs_loop_usable [OF u, of "path # rest" "[]" "[]"] open_warnings_usable [OF u]
      by simp
  next
    case False
    then have u: "\<forall>p\<in>set ok. \<not> is_config_failed (outcome X req p)"
      using h by simp
    show ?thesis
      by (rule ingestLogs_loop_continue [OF False u])
  qed
  also have "\<dots> = (Some e, usable_readers X req ok, open_warnings X req ok)"
    using h by (simp add: ingestLogs_loop_step del: ingestLogs_loop.simps)
  finally have "ingestLogs_loop X req (Paths req) [] [] =
      (Some e, usable_readers X req ok, open_warnings X req ok)"
    using h by simp
  then show "ingestLogs X req prog =
      \<lparr>error = Some e, pipe_warnings = open_warnings X req ok, channel_warnings = [],
       pulled = []\<rparr>"
    by (rule ingestLogs_fails)
qed

theorem ingestLogs_reader_errors_witness:
  "ingestLogs ex_packages (ex_request True [conn_log, missing_log, dns_log]) ex_prog =
     \<lparr>error = Some ''no such file'', pipe_warnings = [], channel_warnings = [], pulled = []\<rparr> \<and>
   error (ingestLogs ex_packages (ex_request True [conn_log, dns_log]) ex_prog) =
     Some ''bad line'' \<and>
   channel_warnings (ingestLogs ex_packages (ex_request True [conn_log, dns_log]) ex_prog) = [] \<and>
   error (ingestLogs ex_packages (ex_request False [conn_log, missing_log, dns_log]) ex_prog) =
     None \<and>
   pipe_warnings (ingestLogs ex_packages (ex_request False [conn_log, missing_log, dns_log])
       ex_prog) = [warning missing_log ''no such file''] \<and>
   mset (channel_warnings (ingestLogs ex_packages
       (ex_request False [conn_log, missing_log, dns_log]) ex_prog)) = {#''bad line''#} \<and>
   mset (pulled (ingestLogs ex_packages
       (ex_request False [conn_log, missing_log, dns_log]) ex_prog)) = {#10, 11, 20#} \<and>
   ingestLogs ex_packages (ex_request True [conn_log, weird_log, dns_log]) ex_prog =
     \<lparr>error = Some ''unknown path'', pipe_warnings = [], channel_warnings = [], pulled = []\<rparr>"
proof -
  let ?X = ex_packages
  let ?t = "ex_request True [conn_log, missing_log, dns_log]"
  let ?r = "ex_request True [conn_log, dns_log]"
  let ?f = "ex_request False [conn_log, missing_log, dns_log]"
  let ?c = "ex_request True [conn_log, weird_log, dns_log]"
  have X: "CreateFile ?X = None" "ParseProc ?X ex_prog = None"
    by code_simp+
  have t: "StopErr ?t" "Paths ?t = [conn_log] @ missing_log # [dns_log]"
    "\<forall>p\<in>set [conn_log]. is_usable (outcome ?X ?t p)"
    "outcome ?X ?t missing_log = OpenFailed ''no such file''"
    by code_simp+
  have r: "StopErr ?r" "\<forall>p\<in>set (Paths ?r). is_usable (outcome ?X ?r p)"
    "usable_readers ?X ?r (Paths ?r) = [1, 2]"
    "first_error (Reads ?X 1) = None" "first_error (Reads ?X 2) = Some ''bad line''"
    by code_simp+
  have f: "\<not> StopErr ?f" "\<forall>p\<in>set (Paths ?f). \<not> is_config_failed (outcome ?X ?f p)"
    "usable_readers ?X ?f (Paths ?f) = [1, 2]"
    "open_warnings ?X ?f (Paths ?f) = [warning missing_log ''no such file'']"
    "records_before_error (Reads ?X 1) = [10, 11]" "records_before_error (Reads ?X 2) = [20]"
    by code_simp+
  have c: "Paths ?c = [conn_log] @ weird_log # [dns_log]"
    "\<forall>p\<in>set [conn_log]. if StopErr ?c then is_usable (outcome ?X ?c p)
        else \<not> is_config_failed (outcome ?X ?c p)"
    "outcome ?X ?c weird_log = ConfigFailed ''unknown path''"
    "open_warnings ?X ?c [conn_log] = []"
    by code_simp+
  have 1: "ingestLogs ?X ?t ex_prog =
      \<lparr>error = Some ''no such file'', pipe_warnings = [], channel_warnings = [], pulled = []\<rparr>"
    using ingestLogs_reader_errors [OF X, of ?t "[conn_log]" missing_log "[dns_log]"
        "''no such file''", THEN conjunct1] t
    by simp
  have 2: "error (ingestLogs ?X ?r ex_prog) = Some ''bad line'' \<and>
      channel_warnings (ingestLogs ?X ?r ex_prog) = []"
    using ingestLogs_reader_errors [OF X, of ?r "[]" "[]" "[]" "[]",
        THEN conjunct2, THEN conjunct1] r
    by (cases "error (ingestLogs ?X ?r ex_prog)") auto
  have 3: "error (ingestLogs ?X ?f ex_prog) = None \<and>
      pipe_warnings (ingestLogs ?X ?f ex_prog) = [warning missing_log ''no such file''] \<and>
      mset (channel_warnings (ingestLogs ?X ?f ex_prog)) = {#''bad line''#} \<and>
      mset (pulled (ingestLogs ?X ?f ex_prog)) = {#10, 11, 20#}"
    using ingestLogs_reader_errors [OF X, of ?f "[]" "[]" "[]" "[]",
        THEN conjunct2, THEN conjunct2, THEN conjunct1] f r(4,5)
    by simp
  have 4: "ingestLogs ?X ?c ex_prog =
      \<lparr>error = Some ''unknown path'', pipe_warnings = [], channel_warnings = [], pulled = []\<rparr>"
    using ingestLogs_reader_errors [OF X, of ?c "[conn_log]" weird_log "[dns_log]"
        "''unknown path''", THEN conjunct2, THEN conjunct2, THEN conjunct2] c
    by simp
  from 1 2 3 4 show ?thesis by simp
qed

text \<open>
  C6 as stated fails without stop-on-error when the type configuration of a reader
  fails: the name of the second file gives the path \<open>weird\<close>, which the configuration
  does not know; the ingest ends with that error, no warning is sent, and the third
  file is never opened.
\<close>

theorem ingestLogs_config_error_stops:
  "\<not> StopErr (ex_request False [conn_log, weird_log, dns_log]) \<and>
   FindStringSubmatch weird_log = Some ''weird'' \<and>
   ingestLogs ex_packages (ex_request False [conn_log, weird_log, dns_log]) ex_prog =
     \<lparr>error = Some ''unknown path'', pipe_warnings = [], channel_warnings = [], pulled = []\<rparr>"
  by code_simp

end
